theory Spec2Isabelle
  imports Main "HOL-Library.Word" "HOL-Library.Sublist"
begin

unbundle bit_operations_syntax

section \<open>Strings and byte arrays\<close>

text \<open>
  The licensing code of \<^verbatim>\<open>src/app/main.cpp\<close> works on two Qt container types.
  A \<^verbatim>\<open>QByteArray\<close> is a sequence of 8-bit characters; a \<^verbatim>\<open>QString\<close> is a
  sequence of 16-bit UTF-16 code units (\<^verbatim>\<open>QChar\<close>), and \<^verbatim>\<open>length()\<close>,
  \<^verbatim>\<open>isEmpty()\<close>, \<^verbatim>\<open>startsWith()\<close> and \<^verbatim>\<open>==\<close> all work on code units.
  A null and an empty string are not told apart by any test of the code
  (\<^verbatim>\<open>isEmpty()\<close> and \<^verbatim>\<open>==\<close> treat them alike), so both are the empty list.
\<close>

type_synonym byte = "8 word"
type_synonym QByteArray = "byte list"
type_synonym QChar = "16 word"
type_synonym QString = "QChar list"

definition QStringLiteral :: "string \<Rightarrow> QString" where
  "QStringLiteral s = map of_char s"

definition startsWith :: "QString \<Rightarrow> QString \<Rightarrow> bool" where
  "startsWith s p = (take (length p) s = p)"

subsection \<open>Latin-1\<close>

text \<open>
  \<^verbatim>\<open>QString::fromLatin1\<close> widens every byte to the code unit of the same value;
  \<^verbatim>\<open>QString::toLatin1\<close> narrows, writing \<^verbatim>\<open>?\<close> for a code unit above 255.
\<close>

definition fromLatin1 :: "QByteArray \<Rightarrow> QString" where
  "fromLatin1 ba = map ucast ba"

definition toLatin1 :: "QString \<Rightarrow> QByteArray" where
  "toLatin1 s = map (\<lambda>c. if 0xFF < c then 0x3F else ucast c) s"

subsection \<open>UTF-8\<close>

text \<open>
  \<^verbatim>\<open>QString::toUtf8\<close> and \<^verbatim>\<open>QString::fromUtf8\<close> belong to the Qt library, not to
  this repository; they are written out here after Qt 6's converter
  (\<^verbatim>\<open>QUtf8::convertFromUnicode\<close>, \<^verbatim>\<open>QUtf8::convertToUnicode\<close>), since
  \<^verbatim>\<open>xorEncrypt\<close>, \<^verbatim>\<open>xorDecrypt\<close> and every file read of the code pass through them.
  The encoder writes one to three bytes for a code unit outside the surrogate range, four
  bytes for a high surrogate followed by a low one, and the single byte \<^verbatim>\<open>?\<close> for a
  surrogate that has no partner. The decoder first skips a leading byte-order mark
  (\<^verbatim>\<open>EF BB BF\<close>), then decodes sequence by sequence; a byte that starts no well-formed
  sequence (overlong forms, encoded surrogates and values above U+10FFFF included) becomes
  one replacement character U+FFFD and decoding resumes at the next byte.

  The converter's shifts and masks are written on the numeric value of a code unit or
  byte: a right shift by \<open>k\<close> is a division by \<open>2 ^ k\<close>, a mask of the low \<open>k\<close> bits a
  remainder, and \<^verbatim>\<open>|\<close> joins disjoint bit ranges, where it is addition. The tests for
  surrogates are ranges: \<^verbatim>\<open>(u & 0xfc00) == 0xd800\<close> holds from \<^verbatim>\<open>0xd800\<close> up to
  \<^verbatim>\<open>0xdbff\<close>, and so on.
\<close>

definition isHighSurrogate :: "QChar \<Rightarrow> bool" where
  "isHighSurrogate u = (0xD800 \<le> unat u \<and> unat u < 0xDC00)"

definition isLowSurrogate :: "QChar \<Rightarrow> bool" where
  "isLowSurrogate u = (0xDC00 \<le> unat u \<and> unat u < 0xE000)"

definition isSurrogate :: "QChar \<Rightarrow> bool" where
  "isSurrogate u = (0xD800 \<le> unat u \<and> unat u < 0xE000)"

text \<open>\<^verbatim>\<open>(char32_t(high) << 10) + low - 0x35fdc00\<close>, used for a surrogate pair only.\<close>

definition surrogateToUcs4 :: "QChar \<Rightarrow> QChar \<Rightarrow> nat" where
  "surrogateToUcs4 high low = unat high * 1024 + unat low - 0x35FDC00"

definition highSurrogate :: "nat \<Rightarrow> QChar" where
  "highSurrogate ucs4 = of_nat (ucs4 div 1024 + 0xD7C0)"

definition lowSurrogate :: "nat \<Rightarrow> QChar" where
  "lowSurrogate ucs4 = of_nat (ucs4 mod 1024 + 0xDC00)"

fun toUtf8 :: "QString \<Rightarrow> QByteArray" where
  "toUtf8 [] = []"
| "toUtf8 (u # src) =
    (if u < 0x80 then ucast u # toUtf8 src
     else if u < 0x800 then
       of_nat (0xC0 + unat u div 64) # of_nat (0x80 + unat u mod 64) # toUtf8 src
     else if \<not> isSurrogate u then
       of_nat (0xE0 + unat u div 4096) # of_nat (0x80 + unat u div 64 mod 64)
         # of_nat (0x80 + unat u mod 64) # toUtf8 src
     else (case src of
         [] \<Rightarrow> [0x3F]
       | low # src' \<Rightarrow>
           if isHighSurrogate u \<and> isLowSurrogate low then
             (let ucs4 = surrogateToUcs4 u low in
                of_nat (0xF0 + ucs4 div 262144 mod 16)
                # of_nat (0x80 + ucs4 div 4096 mod 64)
                # of_nat (0x80 + ucs4 div 64 mod 64)
                # of_nat (0x80 + ucs4 mod 64) # toUtf8 src')
           else 0x3F # toUtf8 src))"

text \<open>\<^verbatim>\<open>(b & 0xc0) == 0x80\<close>\<close>

definition isContinuationByte :: "byte \<Rightarrow> bool" where
  "isContinuationByte b = (unat b div 64 = 2)"

text \<open>
  One step of the decoder (\<^verbatim>\<open>QUtf8Functions::fromUtf8\<close>): for the first byte \<open>b\<close> and
  the input \<open>src\<close> after it, either an error (\<open>None\<close>) or the code units decoded and the
  number of continuation bytes consumed.
\<close>

definition fromUtf8_step :: "byte \<Rightarrow> QByteArray \<Rightarrow> (QString \<times> nat) option" where
  "fromUtf8_step b src =
    (if b < 0x80 then Some ([ucast b], 0)
     else if b \<le> 0xC1 then None
     else if 0xF5 \<le> b then None
     else
       (let charsNeeded = (if b < 0xE0 then 2 else if b < 0xF0 then 3 else 4 :: nat);
            min_uc = (if b < 0xE0 then 0x80 else if b < 0xF0 then 0x800 else 0x10000 :: nat);
            uc0 = (if b < 0xE0 then unat b mod 32
                   else if b < 0xF0 then unat b mod 16 else unat b mod 8);
            cont = take (charsNeeded - 1) src
        in if length src < charsNeeded - 1 then None
           else if \<not> list_all isContinuationByte cont then None
           else
             (let uc = foldl (\<lambda>acc c. acc * 64 + unat c mod 64) uc0 cont
              in if uc < min_uc then None
                 else if (0xD800 \<le> uc \<and> uc < 0xE000) \<or> 0x10FFFF < uc then None
                 else if uc < 0x10000 then Some ([of_nat uc], charsNeeded - 1)
                 else Some ([highSurrogate uc, lowSurrogate uc], charsNeeded - 1))))"

fun convertToUnicode :: "QByteArray \<Rightarrow> QString" where
  "convertToUnicode [] = []"
| "convertToUnicode (b # src) =
    (case fromUtf8_step b src of
       None \<Rightarrow> 0xFFFD # convertToUnicode src
     | Some (units, n) \<Rightarrow> units @ convertToUnicode (drop n src))"

definition fromUtf8 :: "QByteArray \<Rightarrow> QString" where
  "fromUtf8 ba =
    (if take 3 ba = [0xEF, 0xBB, 0xBF] then convertToUnicode (drop 3 ba)
     else convertToUnicode ba)"

text \<open>
  A text is well formed when every surrogate in it is paired: a high surrogate is
  followed by a low one, and a low one follows a high one.
\<close>

fun wellFormed :: "QString \<Rightarrow> bool" where
  "wellFormed [] = True"
| "wellFormed (u # src) =
    (if \<not> isSurrogate u then wellFormed src
     else (case src of
         [] \<Rightarrow> False
       | low # src' \<Rightarrow> isHighSurrogate u \<and> isLowSurrogate low \<and> wellFormed src'))"

subsection \<open>Base64\<close>

text \<open>
  \<^verbatim>\<open>QByteArray::toBase64\<close> encodes three bytes at a time into four characters of the
  alphabet and pads the last group with \<^verbatim>\<open>=\<close>. The 24-bit \<^verbatim>\<open>chunk\<close> and the decoder's
  bit buffer are natural numbers here: a shift is a multiplication or a division by a power
  of two, a mask is a remainder, and \<^verbatim>\<open>|\<close> only ever joins disjoint bit ranges, where it
  is addition. The decoder's buffer stays below \<open>2 ^ 13\<close>, so no \<^verbatim>\<open>unsigned int\<close> wraps.

  \<^verbatim>\<open>QByteArray::fromBase64\<close> is called with its default options, under which it never
  fails: a character outside the alphabet (the padding character too) is skipped and
  decoding goes on with the next one.
\<close>

definition alphabet :: "QByteArray" where
  "alphabet = map of_char ''ABCDEFGHIJKLMNOPQRSTUVWXYZabcdefghijklmnopqrstuvwxyz0123456789+/''"

definition padchar :: byte where
  "padchar = 0x3D"

fun toBase64 :: "QByteArray \<Rightarrow> QByteArray" where
  "toBase64 [] = []"
| "toBase64 [a] =
    (let chunk = unat a * 65536
     in [alphabet ! (chunk div 262144 mod 64), alphabet ! (chunk div 4096 mod 64),
         padchar, padchar])"
| "toBase64 [a, b] =
    (let chunk = unat a * 65536 + unat b * 256
     in [alphabet ! (chunk div 262144 mod 64), alphabet ! (chunk div 4096 mod 64),
         alphabet ! (chunk div 64 mod 64), padchar])"
| "toBase64 (a # b # c # rest) =
    (let chunk = unat a * 65536 + unat b * 256 + unat c
     in alphabet ! (chunk div 262144 mod 64) # alphabet ! (chunk div 4096 mod 64)
        # alphabet ! (chunk div 64 mod 64) # alphabet ! (chunk mod 64) # toBase64 rest)"

text \<open>The value of a base64 character; \<open>None\<close> is the decoder's \<^verbatim>\<open>d = -1\<close>.\<close>

definition base64_digit :: "byte \<Rightarrow> nat option" where
  "base64_digit ch =
    (if 0x41 \<le> ch \<and> ch \<le> 0x5A then Some (unat ch - 0x41)
     else if 0x61 \<le> ch \<and> ch \<le> 0x7A then Some (unat ch - 0x61 + 26)
     else if 0x30 \<le> ch \<and> ch \<le> 0x39 then Some (unat ch - 0x30 + 52)
     else if ch = 0x2B then Some 62
     else if ch = 0x2F then Some 63
     else None)"

fun fromBase64_helper :: "nat \<Rightarrow> nat \<Rightarrow> QByteArray \<Rightarrow> QByteArray" where
  "fromBase64_helper buf nbits [] = []"
| "fromBase64_helper buf nbits (ch # input) =
    (case base64_digit ch of
       None \<Rightarrow> fromBase64_helper buf nbits input
     | Some d \<Rightarrow>
         (let buf' = buf * 64 + d; nbits' = nbits + 6
          in if 8 \<le> nbits' then
               of_nat (buf' div 2 ^ (nbits' - 8))
                 # fromBase64_helper (buf' mod 2 ^ (nbits' - 8)) (nbits' - 8) input
             else fromBase64_helper buf' nbits' input))"

definition fromBase64 :: "QByteArray \<Rightarrow> QByteArray" where
  "fromBase64 base64 = fromBase64_helper 0 0 base64"

section \<open>The obfuscation codec\<close>

text \<open>
  The loop shared by \<^verbatim>\<open>xorEncrypt\<close> and \<^verbatim>\<open>xorDecrypt\<close>:
  \<^verbatim>\<open>for (int i = 0; i < bytes.size(); ++i) bytes[i] = bytes[i] ^ keyBytes[i % keyBytes.size()];\<close>
  It runs only behind the guard that \<^verbatim>\<open>keyBytes\<close> is not empty.
\<close>

function xorLoop :: "nat \<Rightarrow> QByteArray \<Rightarrow> QByteArray \<Rightarrow> QByteArray" where
  "xorLoop i bytes keyBytes =
    (if i < length bytes
     then xorLoop (Suc i) (bytes[i := bytes ! i XOR keyBytes ! (i mod length keyBytes)]) keyBytes
     else bytes)"
  by pat_completeness auto
termination
  by (relation "measure (\<lambda>(i, bytes, keyBytes). length bytes - i)") auto

declare xorLoop.simps [simp del]

definition xorEncrypt :: "QString \<Rightarrow> QString \<Rightarrow> QString" where
  "xorEncrypt data key =
    (let bytes = toUtf8 data; keyBytes = toUtf8 key
     in if keyBytes = [] then []
        else fromLatin1 (toBase64 (xorLoop 0 bytes keyBytes)))"

definition xorDecrypt :: "QString \<Rightarrow> QString \<Rightarrow> QString" where
  "xorDecrypt data key =
    (let bytes = fromBase64 (toLatin1 data); keyBytes = toUtf8 key
     in if keyBytes = [] \<or> bytes = [] then []
        else fromUtf8 (xorLoop 0 bytes keyBytes))"

definition generateKeyFromMac :: "QString \<Rightarrow> QString" where
  "generateKeyFromMac mac = mac @ QStringLiteral ''|QBIT_PAYWALL_SALT_2024|''"

text \<open>The code units that \<^verbatim>\<open>xorDecrypt\<close> reads as base64 characters.\<close>

definition inBase64Alphabet :: "QChar \<Rightarrow> bool" where
  "inBase64Alphabet c = (c \<le> 0xFF \<and> base64_digit (ucast c) \<noteq> None)"

section \<open>The license record\<close>

text \<open>
  A \<^verbatim>\<open>QDateTime\<close> is either invalid (\<open>None\<close>: a default-constructed value, or the
  result of parsing a text that is no date) or a point in time, in milliseconds since the
  epoch. Qt orders an invalid value before every valid one.
\<close>

type_synonym QDateTime = "int option"

record LicenseData =
  email :: QString
  mac :: QString
  uuid :: QString
  issued :: QDateTime
  expires :: QDateTime

text \<open>A default-constructed \<^verbatim>\<open>LicenseData\<close>: null strings and invalid dates.\<close>

definition defaultLicenseData :: LicenseData where
  "defaultLicenseData = \<lparr>email = [], mac = [], uuid = [], issued = None, expires = None\<rparr>"

text \<open>\<^verbatim>\<open>bool isEmpty() const { return email.isEmpty(); }\<close>\<close>

definition isEmpty :: "LicenseData \<Rightarrow> bool" where
  "isEmpty license = (email license = [])"

text \<open>
  \<^verbatim>\<open>LicenseData::isValid\<close>, a member that no path of the program calls; \<open>now\<close> is
  \<^verbatim>\<open>QDateTime::currentDateTime()\<close>.
\<close>

definition isValid :: "int \<Rightarrow> LicenseData \<Rightarrow> bool" where
  "isValid now license =
    (if email license = [] \<or> mac license = [] \<or> uuid license = [] then False
     else if issued license = None \<or> expires license = None then False
     else (case expires license of None \<Rightarrow> False | Some t \<Rightarrow> now < t))"

subsection \<open>JSON and date texts\<close>

text \<open>
  The JSON writer and parser (\<^verbatim>\<open>QJsonDocument::toJson\<close>, \<^verbatim>\<open>QJsonDocument::fromJson\<close>)
  and the ISO-8601 date conversions are Qt's; the licensing code only passes values through
  them. They are parameters of the model, collected in one record, and every statement
  below holds for each choice of them. A parsed document is \<open>None\<close> when it is not a JSON
  object, and otherwise lists the members of the object; a member is a string or some
  other JSON value, which \<^verbatim>\<open>toString()\<close> reads as the empty string.
\<close>

datatype QJsonValue = JsonString QString | JsonOther

type_synonym QJsonObject = "(QString \<times> QJsonValue) list"

record QtLibrary =
  toJson :: "QJsonObject \<Rightarrow> QByteArray"
  fromJson :: "QByteArray \<Rightarrow> QJsonObject option"
  toIsoDate :: "QDateTime \<Rightarrow> QString"
  fromIsoDate :: "QString \<Rightarrow> QDateTime"
  addDays :: "QDateTime \<Rightarrow> int \<Rightarrow> QDateTime"

text \<open>\<^verbatim>\<open>obj.value(key).toString()\<close>: empty for a missing member and for one that is no string.\<close>

definition valueToString :: "QJsonObject \<Rightarrow> string \<Rightarrow> QString" where
  "valueToString obj key =
    (case map_of obj (QStringLiteral key) of
       Some (JsonString s) \<Rightarrow> s
     | _ \<Rightarrow> [])"

definition toJsonString :: "QtLibrary \<Rightarrow> LicenseData \<Rightarrow> QString" where
  "toJsonString qt license =
    fromUtf8 (toJson qt
      [(QStringLiteral ''email'', JsonString (email license)),
       (QStringLiteral ''mac'', JsonString (mac license)),
       (QStringLiteral ''uuid'', JsonString (uuid license)),
       (QStringLiteral ''issued'', JsonString (toIsoDate qt (issued license))),
       (QStringLiteral ''expires'', JsonString (toIsoDate qt (expires license)))])"

definition fromJsonString :: "QtLibrary \<Rightarrow> QString \<Rightarrow> LicenseData" where
  "fromJsonString qt json =
    (case fromJson qt (toUtf8 json) of
       None \<Rightarrow> defaultLicenseData
     | Some obj \<Rightarrow>
         \<lparr>email = valueToString obj ''email'',
          mac = valueToString obj ''mac'',
          uuid = valueToString obj ''uuid'',
          issued = fromIsoDate qt (valueToString obj ''issued''),
          expires = fromIsoDate qt (valueToString obj ''expires'')\<rparr>)"

section \<open>The machine: interfaces, clock, files\<close>

text \<open>
  Everything the licensing code reads from or writes to its surroundings is a field of one
  state record, passed in and handed back by every operation that writes.
  \<^item> \<open>allInterfaces\<close> is what \<^verbatim>\<open>QNetworkInterface::allInterfaces()\<close> lists.
  \<^item> \<open>currentDateTime\<close> is the clock, which always reads a valid time.
  \<^item> \<open>uuidSource\<close> holds the texts that coming calls of
    \<^verbatim>\<open>QUuid::createUuid().toString(QUuid::WithoutBraces)\<close> return.
  \<^item> \<open>crlfLineEnds\<close> tells whether the platform writes a line feed of a text-mode file as
    carriage return and line feed (Windows) or as it is.
  \<^item> \<open>licenseFile\<close> is the content of \<^verbatim>\<open>.license\<close> in the configuration directory and
    \<open>anchorFile\<close> that of \<^verbatim>\<open>../test/CMakeLists.txt\<close> beside the executable; \<open>None\<close>
    is a file that does not exist. The flags say whether the file can be opened for
    reading and for writing; \<open>testDirExists\<close> and \<open>mkpathOk\<close> describe the anchor's
    directory and whether creating it succeeds.
  \<^item> \<open>licenseWriteFault\<close> and \<open>anchorWriteFault\<close> say what becomes of a write to the open
    file: \<open>None\<close> when the bytes written reach the file, \<open>Some left\<close> when the write
    fails (a full disk, an I/O error) and the file is left holding \<open>left\<close>. The code
    writes through a \<^verbatim>\<open>QTextStream\<close> and never looks at its status, so a failed write
    is seen by nothing but a later read.
  \<^item> \<open>fsLog\<close> records the writes and creations that the code issues, oldest first, each
    write with the bytes handed to the file.
  The trace written by \<^verbatim>\<open>paywallDebug\<close> and \<^verbatim>\<open>qDebug\<close> is left out, and so is the
  configuration directory, which \<^verbatim>\<open>getConfigDir\<close> creates when it is missing.
\<close>

record QNetworkInterface =
  isLoopBack :: bool
  hardwareAddress :: QString

datatype FsOp =
    WriteLicense QByteArray
  | MakeTestDir
  | CreateAnchor
  | WriteAnchor QByteArray

record World =
  allInterfaces :: "QNetworkInterface list"
  currentDateTime :: int
  uuidSource :: "QString list"
  crlfLineEnds :: bool
  licenseFile :: "QByteArray option"
  licenseReadable :: bool
  licenseWritable :: bool
  licenseWriteFault :: "QByteArray option"
  anchorFile :: "QByteArray option"
  anchorReadable :: bool
  anchorWritable :: bool
  anchorWriteFault :: "QByteArray option"
  testDirExists :: bool
  mkpathOk :: bool
  fsLog :: "FsOp list"

subsection \<open>Text mode\<close>

text \<open>
  Both files are opened with \<^verbatim>\<open>QIODevice::Text\<close>. Reading through a device in text
  mode drops every carriage return (byte \<^verbatim>\<open>0D\<close>) on every platform, before the bytes
  are decoded. Writing leaves the bytes as they are, except on Windows, where every line
  feed is written as carriage return and line feed.
\<close>

definition textModeRead :: "QByteArray \<Rightarrow> QByteArray" where
  "textModeRead ba = filter (\<lambda>b. b \<noteq> 0x0D) ba"

fun crlf :: "QByteArray \<Rightarrow> QByteArray" where
  "crlf [] = []"
| "crlf (b # ba) = (if b = 0x0A then 0x0D # 0x0A # crlf ba else b # crlf ba)"

definition textModeWrite :: "World \<Rightarrow> QByteArray \<Rightarrow> QByteArray" where
  "textModeWrite w ba = (if crlfLineEnds w then crlf ba else ba)"

text \<open>What a file holds after the bytes \<open>ba\<close> were written to it.\<close>

definition stored :: "QByteArray option \<Rightarrow> QByteArray \<Rightarrow> QByteArray" where
  "stored fault ba = (case fault of None \<Rightarrow> ba | Some left \<Rightarrow> left)"

subsection \<open>Fingerprint\<close>

fun firstMacOf :: "QNetworkInterface list \<Rightarrow> QString" where
  "firstMacOf [] = []"
| "firstMacOf (interface # rest) =
    (if \<not> isLoopBack interface then
       (let macStr = hardwareAddress interface
        in if macStr \<noteq> [] \<and> macStr \<noteq> QStringLiteral ''00:00:00:00:00:00'' then macStr
           else firstMacOf rest)
     else firstMacOf rest)"

definition getFirstMacAddress :: "World \<Rightarrow> QString" where
  "getFirstMacAddress w = firstMacOf (allInterfaces w)"

fun anyInterfaceHas :: "QNetworkInterface list \<Rightarrow> QString \<Rightarrow> bool" where
  "anyInterfaceHas [] targetMac = False"
| "anyInterfaceHas (interface # rest) targetMac =
    (if hardwareAddress interface = targetMac then True else anyInterfaceHas rest targetMac)"

definition systemHasMacAddress :: "World \<Rightarrow> QString \<Rightarrow> bool" where
  "systemHasMacAddress w targetMac =
    (if targetMac = [] then False else anyInterfaceHas (allInterfaces w) targetMac)"

text \<open>
  \<^verbatim>\<open>generateUuid\<close> takes the next text from the source; a source that has run dry stands
  for a generator that returns an empty text.
\<close>

definition generateUuid :: "World \<Rightarrow> QString \<times> World" where
  "generateUuid w =
    (case uuidSource w of
       [] \<Rightarrow> ([], w)
     | u # rest \<Rightarrow> (u, w\<lparr>uuidSource := rest\<rparr>))"

section \<open>The anchor file\<close>

subsection \<open>The two marker patterns\<close>

text \<open>
  The code uses two regular expressions,
  \<^verbatim>\<open># PAYWALL_UUID: [a-fA-F0-9\-]+\s*\<close> to remove markers and
  \<^verbatim>\<open># PAYWALL_UUID: ([a-fA-F0-9\-]+)\<close> to read one. Both are a literal followed by a
  greedy run over a character class that the next pattern item cannot match, so matching
  at a position is deterministic: the literal, then the longest non-empty run of class
  characters, then (for the first pattern) the longest run of white space. \<^verbatim>\<open>\s\<close>
  is the white space of the C locale: tab, line feed, vertical tab, form feed, carriage
  return and space.
\<close>

definition isHexDash :: "QChar \<Rightarrow> bool" where
  "isHexDash c =
    ((0x61 \<le> c \<and> c \<le> 0x66) \<or> (0x41 \<le> c \<and> c \<le> 0x46) \<or> (0x30 \<le> c \<and> c \<le> 0x39)
      \<or> c = 0x2D)"

definition isReSpace :: "QChar \<Rightarrow> bool" where
  "isReSpace c = ((0x09 \<le> c \<and> c \<le> 0x0D) \<or> c = 0x20)"

definition markerLiteral :: QString where
  "markerLiteral = QStringLiteral ''# PAYWALL_UUID: ''"

text \<open>
  A match attempt at the start of \<open>s\<close>: the run of class characters (the captured group
  of the reading pattern) and the text after it.
\<close>

definition matchMarkerAt :: "QString \<Rightarrow> (QString \<times> QString) option" where
  "matchMarkerAt s =
    (if startsWith s markerLiteral then
       (let t = drop (length markerLiteral) s; g = takeWhile isHexDash t
        in if g = [] then None else Some (g, dropWhile isHexDash t))
     else None)"

text \<open>
  \<^verbatim>\<open>uuidPattern.match(content)\<close>: the leftmost position where the pattern matches;
  the result is \<^verbatim>\<open>captured(1)\<close>, and \<open>None\<close> when \<^verbatim>\<open>hasMatch()\<close> is false.
\<close>

fun firstCaptured :: "QString \<Rightarrow> QString option" where
  "firstCaptured [] = None"
| "firstCaptured (c # cs) =
    (case matchMarkerAt (c # cs) of
       Some (g, rest) \<Rightarrow> Some g
     | None \<Rightarrow> firstCaptured cs)"

lemma matchMarkerAt_shorter:
  "matchMarkerAt s = Some (g, rest) \<Longrightarrow> length (dropWhile P rest) < length s"
proof -
  assume m: "matchMarkerAt s = Some (g, rest)"
  then have r: "rest = dropWhile isHexDash (drop (length markerLiteral) s)"
    and g: "takeWhile isHexDash (drop (length markerLiteral) s) \<noteq> []"
    by (auto simp: matchMarkerAt_def Let_def split: if_splits)
  from g have "drop (length markerLiteral) s \<noteq> []" by auto
  then have "s \<noteq> []" by auto
  have "length (dropWhile P rest) \<le> length rest" by (rule length_dropWhile_le)
  also have "\<dots> \<le> length (drop (length markerLiteral) s)"
    unfolding r by (rule length_dropWhile_le)
  also have "\<dots> < length s"
    using \<open>s \<noteq> []\<close> by (simp add: markerLiteral_def QStringLiteral_def)
  finally show ?thesis .
qed

text \<open>
  \<^verbatim>\<open>newContent.remove(uuidPattern)\<close>: every match, found from left to right with the
  search resuming after the previous match, is cut out.
\<close>

function removeMatches :: "QString \<Rightarrow> QString" where
  "removeMatches [] = []"
| "removeMatches (c # cs) =
    (case matchMarkerAt (c # cs) of
       Some (g, rest) \<Rightarrow> removeMatches (dropWhile isReSpace rest)
     | None \<Rightarrow> c # removeMatches cs)"
  by pat_completeness auto
termination
  by (relation "measure length") (auto dest: matchMarkerAt_shorter)

subsection \<open>Trimming\<close>

text \<open>
  \<^verbatim>\<open>QString::trimmed\<close> removes white space, in the sense of \<^verbatim>\<open>QChar::isSpace\<close>, from
  both ends: the C white space, U+0085, U+00A0 and the Unicode separators.
\<close>

definition isSpace :: "QChar \<Rightarrow> bool" where
  "isSpace c =
    (c = 0x20 \<or> (0x09 \<le> c \<and> c \<le> 0x0D) \<or> c = 0x85 \<or> c = 0xA0 \<or> c = 0x1680
      \<or> (0x2000 \<le> c \<and> c \<le> 0x200A) \<or> c = 0x2028 \<or> c = 0x2029 \<or> c = 0x202F
      \<or> c = 0x205F \<or> c = 0x3000)"

definition trimmed :: "QString \<Rightarrow> QString" where
  "trimmed s = rev (dropWhile isSpace (rev (dropWhile isSpace s)))"

subsection \<open>Writing and reading the anchor\<close>

definition uuidComment :: "QString \<Rightarrow> QString" where
  "uuidComment uuidStr = markerLiteral @ uuidStr @ [0x0A]"

text \<open>The text that \<^verbatim>\<open>saveUuidToConfig\<close> writes back for a file that held \<open>content\<close>.\<close>

definition newAnchorContent :: "QString \<Rightarrow> QString \<Rightarrow> QString" where
  "newAnchorContent content uuidStr =
    (let newContent = removeMatches content
     in if \<not> startsWith newContent (uuidComment uuidStr)
        then uuidComment uuidStr @ newContent
        else newContent)"

text \<open>
  The first block of \<^verbatim>\<open>saveUuidToConfig\<close>, run when the file does not exist: make the
  directory if it is missing, then create the empty file.
\<close>

definition createAnchorIfMissing :: "World \<Rightarrow> bool \<times> World" where
  "createAnchorIfMissing w =
    (if anchorFile w \<noteq> None then (True, w)
     else if \<not> testDirExists w \<and> \<not> mkpathOk w then (False, w)
     else
       (let w1 = (if testDirExists w then w
                  else w\<lparr>testDirExists := True, fsLog := fsLog w @ [MakeTestDir]\<rparr>)
        in if \<not> anchorWritable w1 then (False, w1)
           else (True, w1\<lparr>anchorFile := Some [], fsLog := fsLog w1 @ [CreateAnchor]\<rparr>)))"

text \<open>
  \<^verbatim>\<open>QString::fromUtf8(file.readAll())\<close> on the anchor file, opened in text mode; a file
  that is missing reads as the empty text.
\<close>

definition anchorText :: "World \<Rightarrow> QString" where
  "anchorText w = fromUtf8 (textModeRead (case anchorFile w of None \<Rightarrow> [] | Some ba \<Rightarrow> ba))"

text \<open>\<^verbatim>\<open>QString::contains\<close>: \<open>sub\<close> occurs somewhere in \<open>s\<close>.\<close>

fun contains :: "QString \<Rightarrow> QString \<Rightarrow> bool" where
  "contains [] sub = (sub = [])"
| "contains (c # cs) sub = (startsWith (c # cs) sub \<or> contains cs sub)"

text \<open>
  The check that closes \<^verbatim>\<open>saveUuidToConfig\<close>: the file is opened once more, this time
  without text mode, and searched for the id. The outcome goes to the trace only
  (\<^verbatim>\<open>VERIFICATION: UUID found in file\<close> or \<^verbatim>\<open>WARNING: UUID not found after write!\<close>).
\<close>

definition uuidFoundAfterWrite :: "World \<Rightarrow> QString \<Rightarrow> bool" where
  "uuidFoundAfterWrite w uuidStr =
    (case anchorFile w of
       None \<Rightarrow> False
     | Some ba \<Rightarrow> anchorReadable w \<and> contains (fromUtf8 ba) uuidStr)"

text \<open>
  \<^verbatim>\<open>saveUuidToConfig\<close> fails for an empty id, when the file cannot be created, and when
  it cannot be opened for reading and writing. Past that point it returns \<^verbatim>\<open>true\<close>
  on both branches of its closing check.
\<close>

definition saveUuidToConfig :: "World \<Rightarrow> QString \<Rightarrow> bool \<times> World" where
  "saveUuidToConfig w uuidStr =
    (if uuidStr = [] then (False, w)
     else
       (case createAnchorIfMissing w of
          (False, w1) \<Rightarrow> (False, w1)
        | (True, w1) \<Rightarrow>
            if \<not> (anchorReadable w1 \<and> anchorWritable w1) then (False, w1)
            else
              (let content = anchorText w1;
                   written = textModeWrite w1 (toUtf8 (newAnchorContent content uuidStr));
                   w2 = w1\<lparr>anchorFile := Some (stored (anchorWriteFault w1) written),
                           fsLog := fsLog w1 @ [WriteAnchor written]\<rparr>
               in if uuidFoundAfterWrite w2 uuidStr then (True, w2) else (True, w2))))"

definition loadUuidFromConfig :: "World \<Rightarrow> QString" where
  "loadUuidFromConfig w =
    (case anchorFile w of
       None \<Rightarrow> []
     | Some ba \<Rightarrow>
         if \<not> anchorReadable w then []
         else
           (case firstCaptured (fromUtf8 (textModeRead ba)) of
              None \<Rightarrow> []
            | Some g \<Rightarrow>
                (let uuidStr = trimmed g
                 in if 0x2D \<in> set uuidStr \<and> length uuidStr = 36 then uuidStr else [])))"

section \<open>Persistence, validation and activation\<close>

text \<open>
  \<^verbatim>\<open>saveLicense\<close> writes the encoded record to the blob file and hands over to
  \<^verbatim>\<open>saveUuidToConfig\<close>, whose result it returns. Between the two it reads the blob file
  back for the trace; the result of that read is not used.
\<close>

definition saveLicense :: "QtLibrary \<Rightarrow> World \<Rightarrow> LicenseData \<Rightarrow> bool \<times> World" where
  "saveLicense qt w license =
    (if isEmpty license then (False, w)
     else
       (let json = toJsonString qt license;
            key = generateKeyFromMac (mac license);
            encrypted = xorEncrypt json key
        in if encrypted = [] then (False, w)
           else if \<not> licenseWritable w then (False, w)
           else
             (let written = textModeWrite w (toUtf8 encrypted);
                  w1 = w\<lparr>licenseFile := Some (stored (licenseWriteFault w) written),
                         fsLog := fsLog w @ [WriteLicense written]\<rparr>
              in saveUuidToConfig w1 (uuid license))))"

definition loadLicense :: "QtLibrary \<Rightarrow> World \<Rightarrow> LicenseData" where
  "loadLicense qt w =
    (case licenseFile w of
       None \<Rightarrow> defaultLicenseData
     | Some ba \<Rightarrow>
         if \<not> licenseReadable w then defaultLicenseData
         else
           (let encrypted = fromUtf8 (textModeRead ba)
            in if encrypted = [] then defaultLicenseData
               else
                 (let currentMac = getFirstMacAddress w
                  in if currentMac = [] then defaultLicenseData
                     else
                       (let key = generateKeyFromMac currentMac;
                            decrypted = xorDecrypt encrypted key
                        in if decrypted = [] then defaultLicenseData
                           else fromJsonString qt decrypted))))"

text \<open>
  \<^verbatim>\<open>expires <= getCurrentDateTimeSafe()\<close>; an invalid date is before the current time.
\<close>

definition isLicenseExpired :: "World \<Rightarrow> QDateTime \<Rightarrow> bool" where
  "isLicenseExpired w expiry =
    (case expiry of None \<Rightarrow> True | Some t \<Rightarrow> t \<le> currentDateTime w)"

definition hasValidLicense :: "QtLibrary \<Rightarrow> World \<Rightarrow> bool" where
  "hasValidLicense qt w =
    (let license = loadLicense qt w
     in if isEmpty license then False
        else if \<not> systemHasMacAddress w (mac license) then False
        else
          (let configUuid = loadUuidFromConfig w
           in if configUuid = [] \<or> configUuid \<noteq> uuid license then False
              else if isLicenseExpired w (expires license) then False
              else True))"

text \<open>
  The same function, returning which of its \<^verbatim>\<open>return\<close> statements it reaches, each
  named after the trace line written before it: \<^verbatim>\<open>No license file or empty\<close>,
  \<^verbatim>\<open>MAC check failed\<close>, \<^verbatim>\<open>UUID check failed\<close>, \<^verbatim>\<open>License expired\<close> and
  \<^verbatim>\<open>All checks passed\<close>.
\<close>

datatype ValidationExit =
    NoLicenseOrEmpty
  | MacCheckFailed
  | UuidCheckFailed
  | LicenseExpired
  | AllChecksPassed

definition hasValidLicense_exit :: "QtLibrary \<Rightarrow> World \<Rightarrow> ValidationExit" where
  "hasValidLicense_exit qt w =
    (let license = loadLicense qt w
     in if isEmpty license then NoLicenseOrEmpty
        else if \<not> systemHasMacAddress w (mac license) then MacCheckFailed
        else
          (let configUuid = loadUuidFromConfig w
           in if configUuid = [] \<or> configUuid \<noteq> uuid license then UuidCheckFailed
              else if isLicenseExpired w (expires license) then LicenseExpired
              else AllChecksPassed))"

text \<open>
  \<^verbatim>\<open>activateNewLicense\<close> returns what \<^verbatim>\<open>saveLicense\<close> returned; the reads it makes
  after a successful save feed the trace only.
\<close>

definition activateNewLicense :: "QtLibrary \<Rightarrow> World \<Rightarrow> QString \<Rightarrow> bool \<times> World" where
  "activateNewLicense qt w emailStr =
    (let macStr = getFirstMacAddress w
     in if macStr = [] then (False, w)
        else
          (case generateUuid w of
             (uuidStr, w1) \<Rightarrow>
               if uuidStr = [] then (False, w1)
               else
                 (let license =
                        \<lparr>email = trimmed emailStr, mac = macStr, uuid = uuidStr,
                         issued = Some (currentDateTime w1),
                         expires = addDays qt (Some (currentDateTime w1)) 30\<rparr>
                  in saveLicense qt w1 license)))"

section \<open>The specification's reading of the validator\<close>

text \<open>
  The definitions of this section follow the words of the specification, to be compared
  with the definitions above, which follow the code. The specification calls a record
  empty when its \<open>email\<close>, \<open>hardwareId\<close> or \<open>activationId\<close> is unset.
\<close>

definition spec_isEmpty :: "LicenseData \<Rightarrow> bool" where
  "spec_isEmpty r = (email r = [] \<or> mac r = [] \<or> uuid r = [])"

text \<open>
  The fingerprint resolver: the hardware address of the first interface that is not a
  loopback interface and whose address is present and not the all-zero address.
\<close>

definition spec_resolveHardwareId :: "World \<Rightarrow> QString option" where
  "spec_resolveHardwareId w =
    (case filter (\<lambda>i. \<not> isLoopBack i \<and> hardwareAddress i \<noteq> []
                    \<and> hardwareAddress i \<noteq> QStringLiteral ''00:00:00:00:00:00'')
            (allInterfaces w) of
       [] \<Rightarrow> None
     | i # rest \<Rightarrow> Some (hardwareAddress i))"

text \<open>
  Key derivation: \<^verbatim>\<open>deriveKey(hardwareId) = hardwareId + "|" + staticSalt\<close>, with the
  constant compiled into the program.
\<close>

definition staticSalt :: QString where
  "staticSalt = QStringLiteral ''QBIT_PAYWALL_SALT_2024|''"

definition spec_deriveKey :: "QString \<Rightarrow> QString" where
  "spec_deriveKey hardwareId = hardwareId @ QStringLiteral ''|'' @ staticSalt"

text \<open>Parsing: a text that is no JSON object yields no record.\<close>

definition spec_parse :: "QtLibrary \<Rightarrow> QString \<Rightarrow> LicenseData option" where
  "spec_parse qt json =
    (case fromJson qt (toUtf8 json) of
       None \<Rightarrow> None
     | Some obj \<Rightarrow>
         Some \<lparr>email = valueToString obj ''email'',
               mac = valueToString obj ''mac'',
               uuid = valueToString obj ''uuid'',
               issued = fromIsoDate qt (valueToString obj ''issued''),
               expires = fromIsoDate qt (valueToString obj ''expires'')\<rparr>)"

text \<open>
  Step 1: the blob, decoded with the key derived from the hardware id of the machine that
  runs the check, and parsed. \<open>spec_loadBlob\<close> is \<open>None\<close> when there is no blob, no
  hardware id, when decoding yields nothing or the text does not parse;
  \<open>spec_decodedRecord\<close> also drops a record that is empty.
\<close>

definition spec_loadBlob :: "QtLibrary \<Rightarrow> World \<Rightarrow> LicenseData option" where
  "spec_loadBlob qt w =
    (case licenseFile w of
       None \<Rightarrow> None
     | Some ba \<Rightarrow>
         if \<not> licenseReadable w then None
         else
           (case spec_resolveHardwareId w of
              None \<Rightarrow> None
            | Some hardwareId \<Rightarrow>
                (let plain = xorDecrypt (fromUtf8 (textModeRead ba)) (spec_deriveKey hardwareId)
                 in if plain = [] then None else spec_parse qt plain)))"

definition spec_decodedRecord :: "QtLibrary \<Rightarrow> World \<Rightarrow> LicenseData option" where
  "spec_decodedRecord qt w =
    (case spec_loadBlob qt w of
       None \<Rightarrow> None
     | Some r \<Rightarrow> if spec_isEmpty r then None else Some r)"

text \<open>Step 2: some interface reports exactly the record's hardware id.\<close>

definition spec_machineHasHardwareId :: "World \<Rightarrow> QString \<Rightarrow> bool" where
  "spec_machineHasHardwareId w hardwareId =
    (\<exists>i \<in> set (allInterfaces w). hardwareAddress i = hardwareId)"

text \<open>
  Step 3: the anchor value is the first captured group of the marker pattern in the
  anchor file's text, trimmed; a missing file and a text without match have none.
\<close>

definition spec_anchorValue :: "World \<Rightarrow> QString option" where
  "spec_anchorValue w =
    (case anchorFile w of
       None \<Rightarrow> None
     | Some ba \<Rightarrow>
         if \<not> anchorReadable w then None
         else map_option trimmed (firstCaptured (fromUtf8 (textModeRead ba))))"

text \<open>Step 4: the record expires strictly after the current time.\<close>

definition spec_notExpired :: "World \<Rightarrow> LicenseData \<Rightarrow> bool" where
  "spec_notExpired w r = (case expires r of None \<Rightarrow> False | Some t \<Rightarrow> currentDateTime w < t)"

text \<open>
  The validator of the specification: the four steps in order, the first one that fails
  giving the outcome.
\<close>

definition spec_firstFailing :: "QtLibrary \<Rightarrow> World \<Rightarrow> ValidationExit" where
  "spec_firstFailing qt w =
    (case spec_decodedRecord qt w of
       None \<Rightarrow> NoLicenseOrEmpty
     | Some r \<Rightarrow>
         if \<not> spec_machineHasHardwareId w (mac r) then MacCheckFailed
         else if spec_anchorValue w \<noteq> Some (uuid r) then UuidCheckFailed
         else if \<not> spec_notExpired w r then LicenseExpired
         else AllChecksPassed)"

definition spec_isLicenseValid :: "QtLibrary \<Rightarrow> World \<Rightarrow> bool" where
  "spec_isLicenseValid qt w = (spec_firstFailing qt w = AllChecksPassed)"

section \<open>The specification's reading of activation\<close>

text \<open>
  The record that activation builds: the email trimmed, the hardware id and the activation
  id it has obtained, issued now and expiring 30 days later. The blob is the output of the
  codec for the JSON text of the record, keyed by the key derived from the record's
  hardware id.
\<close>

definition spec_newRecord :: "QtLibrary \<Rightarrow> QString \<Rightarrow> QString \<Rightarrow> QString \<Rightarrow> int \<Rightarrow> LicenseData" where
  "spec_newRecord qt emailStr hardwareId activationId now =
    \<lparr>email = trimmed emailStr, mac = hardwareId, uuid = activationId,
     issued = Some now, expires = addDays qt (Some now) 30\<rparr>"

definition spec_blob :: "QtLibrary \<Rightarrow> LicenseData \<Rightarrow> QString" where
  "spec_blob qt r = xorEncrypt (toJsonString qt r) (spec_deriveKey (mac r))"

section \<open>The specification's reading of the anchor write\<close>

text \<open>
  The specification speaks of marker lines. A text is cut into lines after every line
  feed, each line keeping its line feed; a marker line is a line on which the marker
  pattern matches.
\<close>

fun splitLines :: "QString \<Rightarrow> QString list" where
  "splitLines [] = []"
| "splitLines (c # cs) =
    (if c = 0x0A then [c] # splitLines cs
     else (case splitLines cs of [] \<Rightarrow> [[c]] | l # ls \<Rightarrow> (c # l) # ls))"

definition isMarkerLine :: "QString \<Rightarrow> bool" where
  "isMarkerLine l = (firstCaptured l \<noteq> None)"

definition markerLines :: "QString \<Rightarrow> QString list" where
  "markerLines s = filter isMarkerLine (splitLines s)"

text \<open>
  The anchor write as the specification words it: the old text without its marker lines,
  behind the new marker line.
\<close>

definition spec_newAnchorContent :: "QString \<Rightarrow> QString \<Rightarrow> QString" where
  "spec_newAnchorContent content uuidStr =
    uuidComment uuidStr @ concat (filter (\<lambda>l. \<not> isMarkerLine l) (splitLines content))"

text \<open>
  One match of the removal pattern, as a whole text: the marker, a non-empty run of
  hexadecimal digits and dashes, and white space to the end.
\<close>

definition isMarkerMatch :: "QString \<Rightarrow> bool" where
  "isMarkerMatch m =
    (case matchMarkerAt m of
       None \<Rightarrow> False
     | Some (g, rest) \<Rightarrow> list_all isReSpace rest)"

text \<open>
  \<open>cutMarkers s t\<close>: the text \<open>t\<close> is what remains of \<open>s\<close> when some matches of the
  removal pattern are cut out of it; everything else stays, in its place.
\<close>

inductive cutMarkers :: "QString \<Rightarrow> QString \<Rightarrow> bool" where
  cut_nil: "cutMarkers [] []"
| cut_keep: "cutMarkers s t \<Longrightarrow> cutMarkers (c # s) (c # t)"
| cut_match: "isMarkerMatch m \<Longrightarrow> cutMarkers s t \<Longrightarrow> cutMarkers (m @ s) t"

section \<open>A sample machine\<close>

text \<open>
  A concrete library and machine, used to run the model at explicit inputs. The sample
  library writes every object as the text \<^verbatim>\<open>J\<close> and reads that text, and no other, as
  one fixed object, for \<open>sampleQt\<close> the record of the sample license; its dates are
  written as one character.
\<close>

definition sampleUuid :: QString where
  "sampleUuid = QStringLiteral ''123e4567-e89b-12d3-a456-426614174000''"

definition sampleMac :: QString where
  "sampleMac = QStringLiteral ''AA:BB:CC:DD:EE:FF''"

definition sampleObject :: QJsonObject where
  "sampleObject =
    [(QStringLiteral ''email'', JsonString (QStringLiteral ''a@example.com'')),
     (QStringLiteral ''mac'', JsonString sampleMac),
     (QStringLiteral ''uuid'', JsonString sampleUuid),
     (QStringLiteral ''issued'', JsonString (QStringLiteral ''1'')),
     (QStringLiteral ''expires'', JsonString (QStringLiteral ''2''))]"

text \<open>
  Two more objects: a record whose activation id is \<^verbatim>\<open>abc\<close>, and a record without
  hardware id.
\<close>

definition shortIdObject :: QJsonObject where
  "shortIdObject =
    [(QStringLiteral ''email'', JsonString (QStringLiteral ''a@example.com'')),
     (QStringLiteral ''mac'', JsonString sampleMac),
     (QStringLiteral ''uuid'', JsonString (QStringLiteral ''abc'')),
     (QStringLiteral ''issued'', JsonString (QStringLiteral ''1'')),
     (QStringLiteral ''expires'', JsonString (QStringLiteral ''2''))]"

definition noMacObject :: QJsonObject where
  "noMacObject =
    [(QStringLiteral ''email'', JsonString (QStringLiteral ''a@example.com'')),
     (QStringLiteral ''mac'', JsonString []),
     (QStringLiteral ''uuid'', JsonString sampleUuid),
     (QStringLiteral ''issued'', JsonString (QStringLiteral ''1'')),
     (QStringLiteral ''expires'', JsonString (QStringLiteral ''2''))]"

definition sampleLibrary :: "QJsonObject \<Rightarrow> QtLibrary" where
  "sampleLibrary parsed =
    \<lparr>toJson = (\<lambda>obj. [0x4A]),
     fromJson = (\<lambda>ba. if ba = [0x4A] then Some parsed else None),
     toIsoDate = (\<lambda>d. case d of None \<Rightarrow> [] | Some t \<Rightarrow> (if t = 1000 then [0x31] else [0x32])),
     fromIsoDate = (\<lambda>s. if s = [0x31] then Some 1000 else if s = [0x32] then Some 2000 else None),
     addDays = (\<lambda>d n. map_option (\<lambda>t. t + n * 86400000) d)\<rparr>"

definition sampleQt :: QtLibrary where
  "sampleQt = sampleLibrary sampleObject"

definition sampleWorld :: World where
  "sampleWorld =
    \<lparr>allInterfaces =
       [\<lparr>isLoopBack = True, hardwareAddress = QStringLiteral ''00:00:00:00:00:00''\<rparr>,
        \<lparr>isLoopBack = False, hardwareAddress = []\<rparr>,
        \<lparr>isLoopBack = False, hardwareAddress = sampleMac\<rparr>],
     currentDateTime = 1500,
     uuidSource = [sampleUuid],
     crlfLineEnds = False,
     licenseFile = Some (toUtf8 (xorEncrypt [0x4A] (generateKeyFromMac sampleMac))),
     licenseReadable = True,
     licenseWritable = True,
     licenseWriteFault = None,
     anchorFile = Some (toUtf8 (uuidComment sampleUuid @ QStringLiteral ''project(test)'')),
     anchorReadable = True,
     anchorWritable = True,
     anchorWriteFault = None,
     testDirExists = True,
     mkpathOk = True,
     fsLog = []\<rparr>"

section \<open>Facts about the library model\<close>

lemma toUtf8_empty_iff: "toUtf8 s = [] \<longleftrightarrow> s = []"
  by (cases s) (auto split: list.splits simp: Let_def)

lemma toLatin1_fromLatin1: "toLatin1 (fromLatin1 ba) = ba"
proof -
  have "\<not> 0xFF < (ucast b :: QChar)" for b :: byte
  proof -
    have "uint (ucast b :: QChar) = uint b" by (simp add: uint_up_ucast is_up)
    moreover have "uint b < 256" using unsigned_less[of b, where ?'a=int] by simp
    ultimately show ?thesis by (simp add: word_less_alt)
  qed
  moreover have "(ucast (ucast b :: QChar) :: byte) = b" for b :: byte
    by (simp add: ucast_up_ucast_id is_up)
  ultimately show ?thesis
    by (simp add: toLatin1_def fromLatin1_def map_idI)
qed

lemma alphabet_digit_all: "list_all (\<lambda>j. base64_digit (alphabet ! j) = Some j) [0..<64]"
  by code_simp

lemma alphabet_digit: "j < 64 \<Longrightarrow> base64_digit (alphabet ! j) = Some j"
  using alphabet_digit_all by (simp add: list_all_iff)

lemma padchar_digit: "base64_digit padchar = None"
  by (simp add: base64_digit_def padchar_def)

lemma split4: "(x::nat) * 16 = x div 4 * 64 + x mod 4 * 16"
proof -
  have "x div 4 * 64 + x mod 4 * 16 = (x div 4 * 4 + x mod 4) * 16"
    by (simp only: distrib_right mult.assoc)
  then show ?thesis by simp
qed

lemma split16: "(y::nat) * 4 = y div 16 * 64 + y mod 16 * 4"
proof -
  have "y div 16 * 64 + y mod 16 * 4 = (y div 16 * 16 + y mod 16) * 4"
    by (simp only: distrib_right mult.assoc)
  then show ?thesis by simp
qed

lemma digit_bounds:
  fixes x y z :: nat
  assumes "x < 256" "y < 256" "z < 256"
  shows "x div 4 < 64" "x mod 4 * 16 + y div 16 < 64" "y mod 16 * 4 + z div 64 < 64"
    "z mod 64 < 64" "x mod 4 * 16 < 64" "y mod 16 * 4 < 64"
proof -
  show "x div 4 < 64" using assms(1) by (simp add: less_mult_imp_div_less)
  have x0: "x mod 4 < 4" by simp
  moreover have "y div 16 < 16" using assms(2) by (simp add: less_mult_imp_div_less)
  ultimately show "x mod 4 * 16 + y div 16 < 64" by linarith
  have y0: "y mod 16 < 16" by simp
  moreover have "z div 64 < 4" using assms(3) by (simp add: less_mult_imp_div_less)
  ultimately show "y mod 16 * 4 + z div 64 < 64" by linarith
  show "z mod 64 < 64" by simp
  show "x mod 4 * 16 < 64" using x0 by linarith
  show "y mod 16 * 4 < 64" using y0 by linarith
qed

lemma sextet1:
  fixes x y z :: nat
  assumes "y < 256" "z < 256"
  shows "(x * 65536 + y * 256 + z) div 262144 = x div 4"
  using assms by simp

lemma sextet2:
  fixes x y z :: nat
  assumes "x < 256" "y < 256" "z < 256"
  shows "(x * 65536 + y * 256 + z) div 4096 mod 64 = x mod 4 * 16 + y div 16"
proof -
  have "x * 65536 + y * 256 + z = (y * 256 + z) + (x * 16) * 4096" by simp
  then have "(x * 65536 + y * 256 + z) div 4096 = x * 16 + (y * 256 + z) div 4096"
    by (simp only: div_mult_self1)
  moreover have "(y * 256 + z) div 4096 = y div 16"
  proof -
    have "(z + y * 256) div 256 = y" using assms(3) by simp
    then have "(y * 256 + z) div 256 = y" by (simp add: add.commute)
    moreover have "(y * 256 + z) div (256 * 16) = (y * 256 + z) div 256 div 16"
      by (rule div_mult2_eq)
    ultimately show ?thesis by simp
  qed
  ultimately have "(x * 65536 + y * 256 + z) div 4096 = y div 16 + x * 16"
    by simp
  then have e: "(x * 65536 + y * 256 + z) div 4096 = (x mod 4 * 16 + y div 16) + x div 4 * 64"
    unfolding split4[of x] by (simp add: algebra_simps)
  show ?thesis unfolding e using digit_bounds(2)[OF assms] by (simp only: mod_mult_self1 mod_less)
qed

lemma sextet3:
  fixes x y z :: nat
  assumes "x < 256" "y < 256" "z < 256"
  shows "(x * 65536 + y * 256 + z) div 64 mod 64 = y mod 16 * 4 + z div 64"
proof -
  have "x * 65536 + y * 256 + z = z + (x * 1024 + y * 4) * 64" by simp
  then have "(x * 65536 + y * 256 + z) div 64 = (x * 1024 + y * 4) + z div 64"
    by (simp only: div_mult_self1)
  then have e: "(x * 65536 + y * 256 + z) div 64 = (y mod 16 * 4 + z div 64) + (x * 16 + y div 16) * 64"
    unfolding split16[of y] by (simp add: algebra_simps)
  show ?thesis unfolding e using digit_bounds(3)[OF assms] by (simp only: mod_mult_self1 mod_less)
qed

lemma sextet4:
  fixes x y z :: nat
  shows "(x * 65536 + y * 256 + z) mod 64 = z mod 64"
proof -
  have "x * 65536 + y * 256 + z = z + (x * 1024 + y * 4) * 64" by simp
  then show ?thesis by (simp only: mod_mult_self1)
qed

lemma regroup2:
  fixes x y :: nat
  assumes "y < 256"
  shows "(x div 4 * 64 + (x mod 4 * 16 + y div 16)) div 16 = x"
    and "(x div 4 * 64 + (x mod 4 * 16 + y div 16)) mod 16 = y div 16"
proof -
  have e: "x div 4 * 64 + (x mod 4 * 16 + y div 16) = y div 16 + x * 16"
    unfolding split4[of x] by simp
  have l: "y div 16 < 16" using assms by (simp add: less_mult_imp_div_less)
  show "(x div 4 * 64 + (x mod 4 * 16 + y div 16)) div 16 = x" unfolding e using l by simp
  show "(x div 4 * 64 + (x mod 4 * 16 + y div 16)) mod 16 = y div 16" unfolding e using l by simp
qed

lemma regroup3:
  fixes y z :: nat
  assumes "z < 256"
  shows "(y div 16 * 64 + (y mod 16 * 4 + z div 64)) div 4 = y"
    and "(y div 16 * 64 + (y mod 16 * 4 + z div 64)) mod 4 = z div 64"
proof -
  have e: "y div 16 * 64 + (y mod 16 * 4 + z div 64) = z div 64 + y * 4"
    unfolding split16[of y] by simp
  have l: "z div 64 < 4" using assms by (simp add: less_mult_imp_div_less)
  show "(y div 16 * 64 + (y mod 16 * 4 + z div 64)) div 4 = y" unfolding e using l by simp
  show "(y div 16 * 64 + (y mod 16 * 4 + z div 64)) mod 4 = z div 64" unfolding e using l by simp
qed

lemma helper_pad: "fromBase64_helper buf nbits (padchar # rest) = fromBase64_helper buf nbits rest"
  by (simp add: padchar_digit)

lemma helper_first2:
  assumes "j < 64" "k < 64"
  shows "fromBase64_helper 0 0 (alphabet ! j # alphabet ! k # rest)
    = of_nat ((j * 64 + k) div 16) # fromBase64_helper ((j * 64 + k) mod 16) 4 rest"
  using assms by (simp add: alphabet_digit Let_def)

lemma helper_third:
  assumes "l < 64"
  shows "fromBase64_helper r 4 (alphabet ! l # rest)
    = of_nat ((r * 64 + l) div 4) # fromBase64_helper ((r * 64 + l) mod 4) 2 rest"
  using assms by (simp add: alphabet_digit Let_def)

lemma helper_fourth:
  assumes "m < 64"
  shows "fromBase64_helper r 2 (alphabet ! m # rest)
    = of_nat (r * 64 + m) # fromBase64_helper 0 0 rest"
  using assms by (simp add: alphabet_digit Let_def)

lemma byte_bound: "unat (a :: byte) < 256"
  using unsigned_less[of a, where ?'a=nat] by simp

lemma decode_group3:
  fixes a b c :: byte
  shows "fromBase64_helper 0 0 (toBase64 (a # b # c # rest'))
    = a # b # c # fromBase64_helper 0 0 (toBase64 rest')"
proof -
  define x where "x = unat a"
  define y where "y = unat b"
  define z where "z = unat c"
  have lt: "x < 256" "y < 256" "z < 256"
    by (simp_all add: x_def y_def z_def byte_bound)
  have restore: "of_nat x = a" "of_nat y = b" "of_nat z = c"
    by (simp_all add: x_def y_def z_def)
  have s1: "(x * 65536 + y * 256 + z) div 262144 mod 64 = x div 4"
    using sextet1[OF lt(2,3), of x] digit_bounds(1)[OF lt] by simp
  have "fromBase64_helper 0 0 (toBase64 (a # b # c # rest'))
    = fromBase64_helper 0 0 (alphabet ! (x div 4) # alphabet ! (x mod 4 * 16 + y div 16)
        # alphabet ! (y mod 16 * 4 + z div 64) # alphabet ! (z mod 64) # toBase64 rest')"
    by (simp only: toBase64.simps Let_def x_def[symmetric] y_def[symmetric] z_def[symmetric]
        s1 sextet2[OF lt] sextet3[OF lt] sextet4)
  also have "\<dots> = of_nat x # fromBase64_helper (y div 16) 4
      (alphabet ! (y mod 16 * 4 + z div 64) # alphabet ! (z mod 64) # toBase64 rest')"
    by (simp only: helper_first2[OF digit_bounds(1,2)[OF lt]] regroup2[OF lt(2)])
  also have "\<dots> = of_nat x # of_nat y # fromBase64_helper (z div 64) 2
      (alphabet ! (z mod 64) # toBase64 rest')"
    by (simp only: helper_third[OF digit_bounds(3)[OF lt]] regroup3[OF lt(3)])
  also have "\<dots> = of_nat x # of_nat y # of_nat z # fromBase64_helper 0 0 (toBase64 rest')"
    by (simp only: helper_fourth[OF digit_bounds(4)[OF lt]] div_mult_mod_eq)
  finally show ?thesis by (simp only: restore)
qed

lemma decode_group2:
  fixes a b :: byte
  shows "fromBase64_helper 0 0 (toBase64 [a, b]) = [a, b]"
proof -
  define x where "x = unat a"
  define y where "y = unat b"
  have lt: "x < 256" "y < 256" "(0::nat) < 256"
    by (simp_all add: x_def y_def byte_bound)
  have restore: "of_nat x = a" "of_nat y = b"
    by (simp_all add: x_def y_def)
  have s1: "(x * 65536 + y * 256) div 262144 mod 64 = x div 4"
    using sextet1[OF lt(2,3), of x] digit_bounds(1)[OF lt] by simp
  have s2: "(x * 65536 + y * 256) div 4096 mod 64 = x mod 4 * 16 + y div 16"
    using sextet2[OF lt] by simp
  have s3: "(x * 65536 + y * 256) div 64 mod 64 = y mod 16 * 4"
    using sextet3[OF lt] by simp
  have r3: "(y div 16 * 64 + y mod 16 * 4) div 4 = y"
    using regroup3(1)[OF lt(3), of y] by simp
  have "fromBase64_helper 0 0 (toBase64 [a, b])
    = fromBase64_helper 0 0 [alphabet ! (x div 4), alphabet ! (x mod 4 * 16 + y div 16),
        alphabet ! (y mod 16 * 4), padchar]"
    by (simp only: toBase64.simps Let_def x_def[symmetric] y_def[symmetric] s1 s2 s3)
  also have "\<dots> = of_nat x # fromBase64_helper (y div 16) 4 [alphabet ! (y mod 16 * 4), padchar]"
    by (simp only: helper_first2[OF digit_bounds(1,2)[OF lt]] regroup2[OF lt(2)])
  also have "\<dots> = [of_nat x, of_nat y]"
    by (simp only: helper_third[OF digit_bounds(6)[OF lt]] r3 helper_pad fromBase64_helper.simps(1))
  finally show ?thesis by (simp only: restore)
qed

lemma decode_group1:
  fixes a :: byte
  shows "fromBase64_helper 0 0 (toBase64 [a]) = [a]"
proof -
  define x where "x = unat a"
  have lt: "x < 256" "(0::nat) < 256" "(0::nat) < 256"
    by (simp_all add: x_def byte_bound)
  have restore: "of_nat x = a"
    by (simp add: x_def)
  have s1: "(x * 65536) div 262144 mod 64 = x div 4"
    using sextet1[OF lt(2,3), of x] digit_bounds(1)[OF lt] by simp
  have s2: "(x * 65536) div 4096 mod 64 = x mod 4 * 16"
    using sextet2[OF lt] by simp
  have r2: "(x div 4 * 64 + x mod 4 * 16) div 16 = x"
    using regroup2(1)[OF lt(2), of x] by simp
  have "fromBase64_helper 0 0 (toBase64 [a])
    = fromBase64_helper 0 0 [alphabet ! (x div 4), alphabet ! (x mod 4 * 16), padchar, padchar]"
    by (simp only: toBase64.simps Let_def x_def[symmetric] s1 s2)
  also have "\<dots> = [of_nat x]"
    by (simp only: helper_first2[OF digit_bounds(1,5)[OF lt]] r2 helper_pad fromBase64_helper.simps(1))
  finally show ?thesis by (simp only: restore)
qed

lemma fromBase64_toBase64: "fromBase64 (toBase64 ba) = ba"
  unfolding fromBase64_def
proof (induction ba rule: toBase64.induct)
  case 1
  show ?case by simp
next
  case (2 a)
  show ?case by (rule decode_group1)
next
  case (3 a b)
  show ?case by (rule decode_group2)
next
  case (4 a b c rest)
  then show ?case by (simp only: decode_group3)
qed

lemma toBase64_empty_iff: "toBase64 ba = [] \<longleftrightarrow> ba = []"
  by (induction ba rule: toBase64.induct) (simp_all add: Let_def)

lemma length_xorLoop: "length (xorLoop i bytes keyBytes) = length bytes"
proof (induction i bytes keyBytes rule: xorLoop.induct)
  case (1 i bytes keyBytes)
  show ?case
  proof (cases "i < length bytes")
    case True
    then show ?thesis using "1.IH" by (subst xorLoop.simps) simp
  next
    case False
    then show ?thesis by (subst xorLoop.simps) simp
  qed
qed

lemma nth_xorLoop:
  "j < length bytes \<Longrightarrow>
   xorLoop i bytes keyBytes ! j =
     (if i \<le> j then bytes ! j XOR keyBytes ! (j mod length keyBytes) else bytes ! j)"
proof (induction i bytes keyBytes rule: xorLoop.induct)
  case (1 i bytes keyBytes)
  show ?case
  proof (cases "i < length bytes")
    case True
    have "xorLoop i bytes keyBytes ! j =
        xorLoop (Suc i) (bytes[i := bytes ! i XOR keyBytes ! (i mod length keyBytes)]) keyBytes ! j"
      using True by (subst xorLoop.simps) simp
    also have "\<dots> = (if Suc i \<le> j
        then bytes[i := bytes ! i XOR keyBytes ! (i mod length keyBytes)] ! j
               XOR keyBytes ! (j mod length keyBytes)
        else bytes[i := bytes ! i XOR keyBytes ! (i mod length keyBytes)] ! j)"
      using "1.IH"[OF True] "1.prems" by simp
    also have "\<dots> = (if i \<le> j then bytes ! j XOR keyBytes ! (j mod length keyBytes) else bytes ! j)"
      using True "1.prems" by (cases "i = j") auto
    finally show ?thesis .
  next
    case False
    then show ?thesis using "1.prems" by (subst xorLoop.simps) simp
  qed
qed

lemma xorLoop_involution: "xorLoop 0 (xorLoop 0 bytes keyBytes) keyBytes = bytes"
  by (rule nth_equalityI) (simp_all add: length_xorLoop nth_xorLoop xor.assoc)

lemma xorLoop_empty_iff: "xorLoop i bytes keyBytes = [] \<longleftrightarrow> bytes = []"
  using length_xorLoop[of i bytes keyBytes] by (metis length_0_conv)

lemma fromLatin1_empty_iff: "fromLatin1 ba = [] \<longleftrightarrow> ba = []"
  by (simp add: fromLatin1_def)

text \<open>
  What decoding an encoded text gives: the plaintext after one trip through UTF-8. The
  base64 layer and the XOR layer cancel exactly.
\<close>

lemma xorDecrypt_xorEncrypt:
  assumes "data \<noteq> []" "key \<noteq> []"
  shows "xorDecrypt (xorEncrypt data key) key = fromUtf8 (toUtf8 data)"
proof -
  have k: "toUtf8 key \<noteq> []" and d: "toUtf8 data \<noteq> []"
    using assms by (simp_all add: toUtf8_empty_iff)
  have enc: "xorEncrypt data key = fromLatin1 (toBase64 (xorLoop 0 (toUtf8 data) (toUtf8 key)))"
    using k by (simp add: xorEncrypt_def)
  have dec: "fromBase64 (toLatin1 (xorEncrypt data key)) = xorLoop 0 (toUtf8 data) (toUtf8 key)"
    by (simp only: enc toLatin1_fromLatin1 fromBase64_toBase64)
  have ne: "xorLoop 0 (toUtf8 data) (toUtf8 key) \<noteq> []"
    using d by (simp add: xorLoop_empty_iff)
  show ?thesis
    unfolding xorDecrypt_def Let_def dec using k ne by (simp add: xorLoop_involution)
qed

lemma convertToUnicode_ascii:
  "list_all (\<lambda>c. c < 0x80) s \<Longrightarrow> convertToUnicode (toUtf8 s) = s"
proof (induction s)
  case Nil
  show ?case by simp
next
  case (Cons c s)
  then have c: "c < 0x80" and s: "convertToUnicode (toUtf8 s) = s" by simp_all
  have u: "unat c < 128"
    using c by (simp add: word_less_nat_alt)
  have n: "unat (ucast c :: byte) = unat c"
    using u by (simp add: unsigned_ucast_eq unsigned_take_bit_eq take_bit_nat_eq_self)
  have lt: "(ucast c :: byte) < 0x80"
    using u n by (simp add: word_less_nat_alt)
  have "unat (ucast (ucast c :: byte) :: QChar) = unat c"
    using u n by (simp add: unsigned_ucast_eq unsigned_take_bit_eq take_bit_nat_eq_self)
  then have "(ucast (ucast c :: byte) :: QChar) = c"
    by (simp add: word_unat_eq_iff)
  then show ?case using c s lt by (simp add: fromUtf8_step_def)
qed

lemma toUtf8_ascii: "list_all (\<lambda>c. c < 0x80) s \<Longrightarrow> toUtf8 s = map ucast s"
  by (induction s) simp_all

lemma fromUtf8_toUtf8_ascii:
  assumes "list_all (\<lambda>c. c < 0x80) s"
  shows "fromUtf8 (toUtf8 s) = s"
proof (cases s)
  case Nil
  then show ?thesis by (simp add: fromUtf8_def)
next
  case (Cons c cs)
  with assms have c: "c < 0x80" by simp
  have u: "unat c < 128"
    using c by (simp add: word_less_nat_alt)
  have "unat (ucast c :: byte) = unat c"
    using u by (simp add: unsigned_ucast_eq unsigned_take_bit_eq take_bit_nat_eq_self)
  with u have "(ucast c :: byte) \<noteq> 0xEF"
    by (auto simp: word_unat_eq_iff)
  then have "take 3 (toUtf8 s) \<noteq> [0xEF, 0xBB, 0xBF]"
    using Cons c by auto
  then show ?thesis
    using assms by (simp add: fromUtf8_def convertToUnicode_ascii)
qed

lemma fromBase64_helper_skips:
  "fromBase64_helper buf nbits (filter (\<lambda>ch. base64_digit ch \<noteq> None) input)
    = fromBase64_helper buf nbits input"
  by (induction input arbitrary: buf nbits) (auto simp: Let_def split: option.splits)

lemma fromBase64_helper_no_digit:
  "list_all (\<lambda>ch. base64_digit ch = None) input \<Longrightarrow> fromBase64_helper buf nbits input = []"
  by (induction input arbitrary: buf nbits) auto

lemma length_toBase64: "length (toBase64 ba) mod 4 = 0"
  by (induction ba rule: toBase64.induct) (simp_all add: Let_def)

lemma toLatin1_filter:
  "toLatin1 (filter inBase64Alphabet s) = filter (\<lambda>ch. base64_digit ch \<noteq> None) (toLatin1 s)"
proof (induction s)
  case Nil
  show ?case by (simp add: toLatin1_def)
next
  case (Cons c s)
  have q: "base64_digit 0x3F = None"
    by (simp add: base64_digit_def)
  show ?case
    using Cons q by (auto simp: toLatin1_def inBase64Alphabet_def not_less)
qed

subsection \<open>Bytes and code units as numbers\<close>

lemma unat_byte: "k < 256 \<Longrightarrow> unat (of_nat k :: byte) = k"
  by (simp add: unat_of_nat)

lemma unat_unit: "k < 65536 \<Longrightarrow> unat (of_nat k :: QChar) = k"
  by (simp add: unat_of_nat)

lemma unit_bound: "unat (u :: QChar) < 65536"
  using unsigned_less[of u, where ?'a=nat] by simp

lemma unat_byte_add:
  assumes "a + k < 256"
  shows "unat (of_nat a + of_nat k :: byte) = a + k"
proof -
  have "unat (of_nat (a + k) :: byte) = a + k"
    using assms by (rule unat_byte)
  then show ?thesis by (simp only: of_nat_add)
qed

lemma mod_add_multiple: "(k::nat) < m \<Longrightarrow> (c * m + k) mod m = k"
  by simp

lemma div_add_multiple: "(k::nat) < m \<Longrightarrow> (c * m + k) div m = c"
  by simp

lemma div64_bound: "(n::nat) < 2048 \<Longrightarrow> n div 64 < 32"
  by (simp add: less_mult_imp_div_less)

lemma two_byte_step:
  fixes u :: QChar
  assumes "\<not> u < 0x80" and "u < 0x800"
  shows "fromUtf8_step (of_nat (0xC0 + unat u div 64)) (of_nat (0x80 + unat u mod 64) # rest)
    = Some ([u], 1)"
proof -
  define n where "n = unat u"
  have lo: "128 \<le> n" and hi: "n < 2048"
    using assms by (simp_all add: n_def word_less_nat_alt)
  have a: "n div 64 < 32" using hi by (rule div64_bound)
  have a2: "2 \<le> n div 64"
  proof -
    have "128 div 64 \<le> n div 64" using lo by (rule div_le_mono)
    then show ?thesis by simp
  qed
  have c: "n mod 64 < 64" by simp
  have b1: "unat (192 + of_nat (n div 64) :: byte) = 192 + n div 64"
    using unat_byte_add[of 192 "n div 64"] a by simp
  have b2: "unat (128 + of_nat (n mod 64) :: byte) = 128 + n mod 64"
    using unat_byte_add[of 128 "n mod 64"] c by simp
  have m1: "(192 + n div 64) mod 32 = n div 64"
    using a mod_add_multiple[of "n div 64" 32 6] by simp
  have m2: "(128 + n mod 64) mod 64 = n mod 64"
    using c mod_add_multiple[of "n mod 64" 64 2] by simp
  have d2: "(128 + n mod 64) div 64 = 2"
    using c div_add_multiple[of "n mod 64" 64 2] by simp
  have restore: "of_nat n = u" by (simp add: n_def)
  show ?thesis
    unfolding fromUtf8_step_def n_def[symmetric]
    using a a2 lo hi
    by (simp add: word_less_nat_alt word_le_nat_alt b1 b2 Let_def isContinuationByte_def m1 m2 d2 restore)
qed

lemma div_div_64:
  fixes x :: nat
  shows "x div 4096 = x div 64 div 64" and "x div 262144 = x div 4096 div 64"
proof -
  have "x div (64 * 64) = x div 64 div 64" by (rule div_mult2_eq)
  then show "x div 4096 = x div 64 div 64" by simp
  have "x div (4096 * 64) = x div 4096 div 64" by (rule div_mult2_eq)
  then show "x div 262144 = x div 4096 div 64" by simp
qed

lemma recompose64: "(y::nat) div 64 * 64 + y mod 64 = y"
  by simp

lemma three_byte_step:
  fixes u :: QChar
  assumes "\<not> u < 0x800" and "\<not> isSurrogate u"
  shows "fromUtf8_step (of_nat (0xE0 + unat u div 4096))
      (of_nat (0x80 + unat u div 64 mod 64) # of_nat (0x80 + unat u mod 64) # rest)
    = Some ([u], 2)"
proof -
  define n where "n = unat u"
  have lo: "2048 \<le> n" and hi: "n < 65536" and ns: "\<not> (55296 \<le> n \<and> n < 57344)"
    using assms unit_bound[of u] by (simp_all add: n_def word_less_nat_alt isSurrogate_def)
  have a: "n div 4096 < 16" using hi by (simp add: less_mult_imp_div_less)
  have b: "n div 64 mod 64 < 64" and c: "n mod 64 < 64" by simp_all
  have b1: "unat (224 + of_nat (n div 4096) :: byte) = 224 + n div 4096"
    using unat_byte_add[of 224 "n div 4096"] a by simp
  have b2: "unat (128 + of_nat (n div 64 mod 64) :: byte) = 128 + n div 64 mod 64"
    using unat_byte_add[of 128 "n div 64 mod 64"] b by simp
  have b3: "unat (128 + of_nat (n mod 64) :: byte) = 128 + n mod 64"
    using unat_byte_add[of 128 "n mod 64"] c by simp
  have m1: "(224 + n div 4096) mod 16 = n div 4096"
    using a mod_add_multiple[of "n div 4096" 16 14] by simp
  have m2: "(128 + n div 64 mod 64) mod 64 = n div 64 mod 64"
    using b mod_add_multiple[of "n div 64 mod 64" 64 2] by simp
  have m3: "(128 + n mod 64) mod 64 = n mod 64"
    using c mod_add_multiple[of "n mod 64" 64 2] by simp
  have d2: "(128 + n div 64 mod 64) div 64 = 2"
    using b div_add_multiple[of "n div 64 mod 64" 64 2] by simp
  have d3: "(128 + n mod 64) div 64 = 2"
    using c div_add_multiple[of "n mod 64" 64 2] by simp
  have r1: "n div 4096 * 64 + n div 64 mod 64 = n div 64"
    unfolding div_div_64(1) by (rule recompose64)
  have uc: "(n div 4096 * 64 + n div 64 mod 64) * 64 + n mod 64 = n"
    unfolding r1 by (rule recompose64)
  have restore: "of_nat n = u" by (simp add: n_def)
  show ?thesis
    unfolding fromUtf8_step_def n_def[symmetric]
    using a lo hi ns
    by (simp add: word_less_nat_alt word_le_nat_alt b1 b2 b3 Let_def isContinuationByte_def
        m1 m2 m3 d2 d3 uc[simplified] restore)
qed

lemma four_byte_step:
  fixes u low :: QChar
  assumes "isHighSurrogate u" and "isLowSurrogate low"
  shows "fromUtf8_step (of_nat (0xF0 + surrogateToUcs4 u low div 262144 mod 16))
      (of_nat (0x80 + surrogateToUcs4 u low div 4096 mod 64)
       # of_nat (0x80 + surrogateToUcs4 u low div 64 mod 64)
       # of_nat (0x80 + surrogateToUcs4 u low mod 64) # rest)
    = Some ([u, low], 3)"
proof -
  define x where "x = surrogateToUcs4 u low"
  define h where "h = unat u - 55296"
  define l where "l = unat low - 56320"
  have ub: "55296 \<le> unat u" "unat u < 56320" and lwb: "56320 \<le> unat low" "unat low < 57344"
    using assms by (simp_all add: isHighSurrogate_def isLowSurrogate_def)
  have hu: "unat u = 55296 + h" and lu: "unat low = 56320 + l"
    using ub lwb by (simp_all add: h_def l_def)
  have hb: "h < 1024" using ub(2) unfolding hu by linarith
  have lb: "l < 1024" using lwb(2) unfolding lu by linarith
  have x: "x = 65536 + h * 1024 + l"
    by (simp add: x_def surrogateToUcs4_def hu lu)
  have xlo: "65536 \<le> x" and xhi: "x < 1114112"
    using hb lb by (simp_all add: x)
  have a: "x div 262144 < 5" using xhi by (simp add: less_mult_imp_div_less)
  then have a16: "x div 262144 mod 16 = x div 262144" by simp
  have b1: "unat (240 + of_nat (x div 262144) :: byte) = 240 + x div 262144"
    using unat_byte_add[of 240 "x div 262144"] a by simp
  have b2: "unat (128 + of_nat (x div 4096 mod 64) :: byte) = 128 + x div 4096 mod 64"
    using unat_byte_add[of 128 "x div 4096 mod 64"] by simp
  have b3: "unat (128 + of_nat (x div 64 mod 64) :: byte) = 128 + x div 64 mod 64"
    using unat_byte_add[of 128 "x div 64 mod 64"] by simp
  have b4: "unat (128 + of_nat (x mod 64) :: byte) = 128 + x mod 64"
    using unat_byte_add[of 128 "x mod 64"] by simp
  have m1: "(240 + x div 262144) mod 8 = x div 262144"
    using a mod_add_multiple[of "x div 262144" 8 30] by simp
  have m: "(128 + y mod 64) mod 64 = y mod 64" for y :: nat
    using mod_add_multiple[of "y mod 64" 64 2] by simp
  have d: "(128 + y mod 64) div 64 = 2" for y :: nat
    using div_add_multiple[of "y mod 64" 64 2] by simp
  have r1: "x div 262144 * 64 + x div 4096 mod 64 = x div 4096"
    unfolding div_div_64(2) by (rule recompose64)
  have r2: "x div 4096 * 64 + x div 64 mod 64 = x div 64"
    unfolding div_div_64(1) by (rule recompose64)
  have uc: "((x div 262144 * 64 + x div 4096 mod 64) * 64 + x div 64 mod 64) * 64 + x mod 64 = x"
    unfolding r1 r2 by (rule recompose64)
  have xs: "x = (64 + h) * 1024 + l" by (simp add: x)
  have xd: "x div 1024 = 64 + h"
    unfolding xs using lb div_add_multiple[of l 1024 "64 + h"] by simp
  have xm: "x mod 1024 = l"
    unfolding xs using lb mod_add_multiple[of l 1024 "64 + h"] by simp
  have ru: "of_nat (unat w) = w" for w :: QChar by simp
  have "x div 1024 + 55232 = unat u" unfolding xd hu by simp
  then have hs: "highSurrogate x = u"
    by (simp only: highSurrogate_def ru)
  have "x mod 1024 + 56320 = unat low" unfolding xm lu by simp
  then have ls: "lowSurrogate x = low"
    by (simp only: lowSurrogate_def ru)
  show ?thesis
    unfolding fromUtf8_step_def x_def[symmetric] a16
    using a xlo xhi
    by (simp add: word_less_nat_alt word_le_nat_alt b1 b2 b3 b4 Let_def isContinuationByte_def
        m1 m d uc[simplified] hs ls)
qed

subsection \<open>The UTF-8 round trip\<close>

lemma one_byte_step:
  fixes u :: QChar
  assumes "u < 0x80"
  shows "fromUtf8_step (ucast u) rest = Some ([u], 0)"
proof -
  have n: "unat u < 128"
    using assms by (simp add: word_less_nat_alt)
  have e: "unat (ucast u :: byte) = unat u"
    using n by (simp add: unsigned_ucast_eq unsigned_take_bit_eq take_bit_nat_eq_self)
  have lt: "(ucast u :: byte) < 0x80"
    using n e by (simp add: word_less_nat_alt)
  have "unat (ucast (ucast u :: byte) :: QChar) = unat u"
    using n e by (simp add: unsigned_ucast_eq unsigned_take_bit_eq take_bit_nat_eq_self)
  then have "(ucast (ucast u :: byte) :: QChar) = u"
    by (simp add: word_unat_eq_iff)
  then show ?thesis
    using lt by (simp add: fromUtf8_step_def)
qed

lemma small_not_surrogate: "(u :: QChar) < 0x800 \<Longrightarrow> \<not> isSurrogate u"
  by (simp add: isSurrogate_def word_less_nat_alt)

lemma surrogate_cases: "isSurrogate u \<longleftrightarrow> isHighSurrogate u \<or> isLowSurrogate u"
  by (auto simp: isSurrogate_def isHighSurrogate_def isLowSurrogate_def)

lemma convertToUnicode_toUtf8: "wellFormed s \<Longrightarrow> convertToUnicode (toUtf8 s) = s"
proof (induction s rule: wellFormed.induct)
  case 1
  show ?case by simp
next
  case (2 u src)
  show ?case
  proof (cases "isSurrogate u")
    case False
    then have wf: "wellFormed src"
      using "2.prems" by simp
    have ih: "convertToUnicode (toUtf8 src) = src"
      using "2.IH"(1)[OF False wf] .
    consider "u < 0x80" | "\<not> u < 0x80" "u < 0x800" | "\<not> u < 0x800"
      by (cases "u < 0x80"; cases "u < 0x800") auto
    then show ?thesis
    proof cases
      case 1
      then show ?thesis
        by (simp add: one_byte_step ih)
    next
      case 2
      then show ?thesis
        by (simp add: two_byte_step[simplified] ih)
    next
      case 3
      then have "\<not> u < 0x80"
        by (simp add: word_less_nat_alt)
      then show ?thesis
        using 3 False by (simp add: three_byte_step[simplified] ih)
    qed
  next
    case True
    then obtain low src' where src: "src = low # src'"
      and hl: "isHighSurrogate u" "isLowSurrogate low" and wf: "wellFormed src'"
      using "2.prems" by (auto split: list.splits)
    have ih: "convertToUnicode (toUtf8 src') = src'"
      using "2.IH"(2)[OF _ src wf] True by simp
    have big: "\<not> u < 0x80" "\<not> u < 0x800"
      using True by (simp_all add: isSurrogate_def word_less_nat_alt)
    show ?thesis
      using True hl big by (simp add: src Let_def four_byte_step[simplified] ih)
  qed
qed

subsection \<open>What the decoder produces\<close>

lemma ucast_byte_unat: "unat (ucast (b :: byte) :: QChar) = unat b"
  by (simp add: unsigned_ucast_eq unsigned_take_bit_eq take_bit_nat_eq_self
      order_less_trans[OF unsigned_less[of b, where ?'a=nat]])

lemma pair_ranges:
  fixes uc :: nat
  assumes "65536 \<le> uc" and "uc \<le> 1114111"
  shows "isHighSurrogate (highSurrogate uc)" and "isLowSurrogate (lowSurrogate uc)"
proof -
  have "uc div 1024 < 1088"
    using assms(2) by (simp add: less_mult_imp_div_less)
  moreover have "64 \<le> uc div 1024"
  proof -
    have "65536 div 1024 \<le> uc div 1024"
      using assms(1) by (rule div_le_mono)
    then show ?thesis by simp
  qed
  ultimately have h: "55296 \<le> uc div 1024 + 55232" "uc div 1024 + 55232 < 56320"
    by linarith+
  then have e: "unat (of_nat (uc div 1024 + 55232) :: QChar) = uc div 1024 + 55232"
    by (intro unat_unit) linarith
  show "isHighSurrogate (highSurrogate uc)"
    unfolding isHighSurrogate_def highSurrogate_def e by (intro conjI h)
  have "uc mod 1024 < 1024" by simp
  then have l: "56320 \<le> uc mod 1024 + 56320" "uc mod 1024 + 56320 < 57344"
    by linarith+
  then have e': "unat (of_nat (uc mod 1024 + 56320) :: QChar) = uc mod 1024 + 56320"
    by (intro unat_unit) linarith
  show "isLowSurrogate (lowSurrogate uc)"
    unfolding isLowSurrogate_def lowSurrogate_def e' by (intro conjI l)
qed

text \<open>
  A decoding step yields one code unit outside the surrogate range, or a surrogate pair;
  a carriage return comes from the byte \<^verbatim>\<open>0D\<close> only.
\<close>

lemma fromUtf8_step_units:
  assumes "fromUtf8_step b src = Some (units, n)"
  shows "(\<exists>u. units = [u] \<and> \<not> isSurrogate u \<and> (u = 0x0D \<longrightarrow> b = 0x0D))
    \<or> (\<exists>h l. units = [h, l] \<and> isHighSurrogate h \<and> isLowSurrogate l)"
proof (cases "b < 0x80")
  case True
  then have u: "units = [ucast b]"
    using assms by (simp add: fromUtf8_step_def)
  have n: "unat b < 128"
    using True by (simp add: word_less_nat_alt)
  have "\<not> isSurrogate (ucast b :: QChar)"
    using n by (simp add: isSurrogate_def ucast_byte_unat)
  moreover have "b = 0x0D" if "(ucast b :: QChar) = 0x0D"
  proof -
    have "unat (ucast b :: QChar) = 13" using that by simp
    then have "unat b = 13" by (simp add: ucast_byte_unat)
    then show ?thesis by (simp add: word_unat_eq_iff)
  qed
  ultimately show ?thesis
    using u by blast
next
  case False
  define uc where "uc = foldl (\<lambda>acc c. acc * 64 + unat c mod 64)
      (if b < 0xE0 then unat b mod 32 else if b < 0xF0 then unat b mod 16 else unat b mod 8)
      (take ((if b < 0xE0 then 2 else if b < 0xF0 then 3 else 4 :: nat) - 1) src)"
  define m where "m = (if b < 0xE0 then 0x80 else if b < 0xF0 then 0x800 else 0x10000 :: nat)"
  have m: "128 \<le> m"
    by (simp add: m_def)
  have "\<not> uc < m \<and> \<not> ((0xD800 \<le> uc \<and> uc < 0xE000) \<or> 0x10FFFF < uc)
      \<and> units = (if uc < 0x10000 then [of_nat uc] else [highSurrogate uc, lowSurrogate uc])"
  proof -
    have step: "fromUtf8_step b src =
        (if b \<le> 0xC1 then None
         else if 0xF5 \<le> b then None
         else if length src < (if b < 0xE0 then 2 else if b < 0xF0 then 3 else 4 :: nat) - 1
           then None
         else if \<not> list_all isContinuationByte
             (take ((if b < 0xE0 then 2 else if b < 0xF0 then 3 else 4 :: nat) - 1) src)
           then None
         else if uc < m then None
         else if (0xD800 \<le> uc \<and> uc < 0xE000) \<or> 0x10FFFF < uc then None
         else if uc < 0x10000
           then Some ([of_nat uc], (if b < 0xE0 then 2 else if b < 0xF0 then 3 else 4 :: nat) - 1)
         else Some ([highSurrogate uc, lowSurrogate uc],
           (if b < 0xE0 then 2 else if b < 0xF0 then 3 else 4 :: nat) - 1))"
      using False unfolding fromUtf8_step_def Let_def uc_def[symmetric] m_def[symmetric]
      by (simp only: if_False)
    have peel: "\<not> c \<and> e = Some r" if "(if c then None else e) = Some r"
      for c and e :: "(QString \<times> nat) option" and r
      using that by (cases c) simp_all
    note p1 = peel[OF assms[unfolded step]]
    note p2 = peel[OF p1[THEN conjunct2]]
    note p3 = peel[OF p2[THEN conjunct2]]
    note p4 = peel[OF p3[THEN conjunct2]]
    note p5 = peel[OF p4[THEN conjunct2]]
    note p6 = peel[OF p5[THEN conjunct2]]
    have "units = (if uc < 0x10000 then [of_nat uc] else [highSurrogate uc, lowSurrogate uc])"
      using p6[THEN conjunct2] by (cases "uc < 0x10000") simp_all
    then show ?thesis
      using p5[THEN conjunct1] p6[THEN conjunct1] by (intro conjI)
  qed
  then have lo: "128 \<le> uc"
    and ns: "\<not> (55296 \<le> uc \<and> uc < 57344)" and hi: "uc \<le> 1114111"
    and u: "units = (if uc < 65536 then [of_nat uc] else [highSurrogate uc, lowSurrogate uc])"
    using m by auto
  show ?thesis
  proof (cases "uc < 65536")
    case True
    then have e: "unat (of_nat uc :: QChar) = uc"
      by (rule unat_unit)
    have "\<not> isSurrogate (of_nat uc :: QChar)"
      unfolding isSurrogate_def e using ns by simp
    moreover have "(of_nat uc :: QChar) \<noteq> 0x0D"
    proof
      assume "(of_nat uc :: QChar) = 0x0D"
      then have "unat (of_nat uc :: QChar) = 13" by simp
      then show False using lo unfolding e by simp
    qed
    ultimately show ?thesis
      using u True by simp
  next
    case False
    then show ?thesis
      using u pair_ranges[of uc] hi by simp
  qed
qed

lemma wellFormed_append: "wellFormed a \<Longrightarrow> wellFormed (a @ b) = wellFormed b"
proof (induction a rule: wellFormed.induct)
  case 1
  show ?case by simp
next
  case (2 u src)
  show ?case
  proof (cases "isSurrogate u")
    case False
    then have "wellFormed src"
      using "2.prems" by simp
    from "2.IH"(1)[OF False this] show ?thesis
      using False by simp
  next
    case True
    then obtain low src' where src: "src = low # src'"
      and hl: "isHighSurrogate u" "isLowSurrogate low" and wf: "wellFormed src'"
      using "2.prems" by (auto split: list.splits)
    have "wellFormed (src' @ b) = wellFormed b"
      using "2.IH"(2)[OF _ src wf] True by simp
    then show ?thesis
      using True hl by (simp add: src)
  qed
qed

lemma not_surrogate_FFFD: "\<not> isSurrogate 0xFFFD"
  by (simp add: isSurrogate_def)

lemma wellFormed_convertToUnicode: "wellFormed (convertToUnicode ba)"
proof (induction ba rule: convertToUnicode.induct)
  case 1
  show ?case by simp
next
  case (2 b src)
  show ?case
  proof (cases "fromUtf8_step b src")
    case None
    then show ?thesis
      using "2.IH"(1) by (simp add: not_surrogate_FFFD)
  next
    case (Some r)
    obtain units n where r: "r = (units, n)" by (cases r)
    have ih: "wellFormed (convertToUnicode (drop n src))"
      using "2.IH"(2)[OF Some[unfolded r] refl] .
    have "wellFormed units"
      using fromUtf8_step_units[OF Some[unfolded r]]
      by (auto simp: surrogate_cases)
    then show ?thesis
      using ih Some r by (simp add: wellFormed_append)
  qed
qed

lemma wellFormed_fromUtf8: "wellFormed (fromUtf8 ba)"
  by (simp add: fromUtf8_def wellFormed_convertToUnicode)

lemma convertToUnicode_no_CR: "0x0D \<notin> set ba \<Longrightarrow> 0x0D \<notin> set (convertToUnicode ba)"
proof (induction ba rule: convertToUnicode.induct)
  case 1
  show ?case by simp
next
  case (2 b src)
  then have b: "b \<noteq> 0x0D" and s: "0x0D \<notin> set src" by auto
  show ?case
  proof (cases "fromUtf8_step b src")
    case None
    then show ?thesis
      using "2.IH"(1) s by simp
  next
    case (Some r)
    obtain units n where r: "r = (units, n)" by (cases r)
    have "0x0D \<notin> set (drop n src)"
      using s by (meson in_set_dropD)
    then have ih: "0x0D \<notin> set (convertToUnicode (drop n src))"
      using "2.IH"(2)[OF Some[unfolded r] refl] by simp
    have "0x0D \<notin> set units"
      using fromUtf8_step_units[OF Some[unfolded r]] b
      by (auto simp: isHighSurrogate_def isLowSurrogate_def)
    then show ?thesis
      using ih Some r by simp
  qed
qed

lemma fromUtf8_no_CR: "0x0D \<notin> set ba \<Longrightarrow> 0x0D \<notin> set (fromUtf8 ba)"
  by (auto simp: fromUtf8_def dest: in_set_dropD intro!: convertToUnicode_no_CR)

subsection \<open>The bytes the encoder writes\<close>

lemma lead2_unat: "y < 32 \<Longrightarrow> unat (192 + of_nat y :: byte) = 192 + y"
  using unat_byte_add[of 192 y] by simp

lemma lead3_unat: "y < 16 \<Longrightarrow> unat (224 + of_nat y :: byte) = 224 + y"
  using unat_byte_add[of 224 y] by simp

lemma lead4_unat: "unat (240 + of_nat (y mod 16) :: byte) = 240 + y mod 16"
  using unat_byte_add[of 240 "y mod 16"] by simp

lemma cont_unat: "unat (128 + of_nat (y mod 64) :: byte) = 128 + y mod 64"
  using unat_byte_add[of 128 "y mod 64"] by simp

lemma toUtf8_1: "u < 0x80 \<Longrightarrow> toUtf8 (u # src) = ucast u # toUtf8 src"
  by simp

lemma toUtf8_2:
  "\<not> u < 0x80 \<Longrightarrow> u < 0x800 \<Longrightarrow>
    toUtf8 (u # src)
      = (192 + of_nat (unat u div 64)) # (128 + of_nat (unat u mod 64)) # toUtf8 src"
  by simp

lemma toUtf8_3:
  "\<not> u < 0x800 \<Longrightarrow> \<not> isSurrogate u \<Longrightarrow>
    toUtf8 (u # src)
      = (224 + of_nat (unat u div 4096)) # (128 + of_nat (unat u div 64 mod 64))
        # (128 + of_nat (unat u mod 64)) # toUtf8 src"
proof -
  assume a: "\<not> u < 0x800" "\<not> isSurrogate u"
  then have "\<not> u < 0x80"
    by (simp add: word_less_nat_alt)
  then show ?thesis
    using a by simp
qed

lemma surrogate_big: "isSurrogate u \<Longrightarrow> \<not> u < 0x80 \<and> \<not> u < 0x800"
  by (simp add: isSurrogate_def word_less_nat_alt)

lemma toUtf8_4:
  "isHighSurrogate u \<Longrightarrow> isLowSurrogate low \<Longrightarrow>
    toUtf8 (u # low # src)
      = (240 + of_nat (surrogateToUcs4 u low div 262144 mod 16))
        # (128 + of_nat (surrogateToUcs4 u low div 4096 mod 64))
        # (128 + of_nat (surrogateToUcs4 u low div 64 mod 64))
        # (128 + of_nat (surrogateToUcs4 u low mod 64)) # toUtf8 src"
proof -
  assume a: "isHighSurrogate u" "isLowSurrogate low"
  then have s: "isSurrogate u"
    by (simp add: surrogate_cases)
  show ?thesis
    using a s surrogate_big[OF s] by (simp add: Let_def)
qed

lemma toUtf8_lone:
  assumes "isSurrogate u" and "\<not> (isHighSurrogate u \<and> src \<noteq> [] \<and> isLowSurrogate (hd src))"
  shows "toUtf8 (u # src) = 0x3F # toUtf8 src"
  using assms surrogate_big[OF assms(1)] by (cases src) auto

text \<open>
  The five ways in which the encoder consumes the front of a text: one code unit written
  as one, two or three bytes, a surrogate pair written as four, and a surrogate without
  partner written as \<^verbatim>\<open>?\<close>.
\<close>

lemma toUtf8_front:
  obtains (one) "u < 0x80"
  | (two) "\<not> u < 0x80" "u < 0x800"
  | (three) "\<not> u < 0x800" "\<not> isSurrogate u"
  | (pair) low src' where "src = low # src'" "isHighSurrogate u" "isLowSurrogate low"
  | (lone) "isSurrogate u" "\<not> (isHighSurrogate u \<and> src \<noteq> [] \<and> isLowSurrogate (hd src))"
proof (cases "isSurrogate u")
  case False
  then show ?thesis
    using one two three by (cases "u < 0x80"; cases "u < 0x800") auto
next
  case True
  show ?thesis
  proof (cases "isHighSurrogate u \<and> src \<noteq> [] \<and> isLowSurrogate (hd src)")
    case False
    then show ?thesis using lone True by blast
  next
    case h: True
    then obtain low src' where "src = low # src'"
      by (cases src) auto
    then show ?thesis using pair h by auto
  qed
qed

lemma byte_CR_small: "(b :: byte) = 0x0D \<Longrightarrow> unat b < 128"
  by simp

lemma toUtf8_no_CR: "0x0D \<notin> set s \<Longrightarrow> 0x0D \<notin> set (toUtf8 s)"
proof (induction "length s" arbitrary: s rule: less_induct)
  case less
  show ?case
  proof (cases s)
    case Nil
    then show ?thesis by simp
  next
    case (Cons u src)
    have u: "u \<noteq> 0x0D" and ih: "0x0D \<notin> set (toUtf8 src)"
      using less.prems less.hyps[of src] Cons by auto
    have big: "b \<noteq> 0x0D" if "128 \<le> unat b" for b :: byte
      using that byte_CR_small[of b] by auto
    have cont: "(128 + of_nat (y mod 64) :: byte) \<noteq> 0x0D" for y :: nat
      by (rule big) (simp add: cont_unat)
    show ?thesis
    proof (cases rule: toUtf8_front[where u = u and src = src])
      case one
      have "(ucast u :: byte) \<noteq> 0x0D"
      proof
        assume e: "(ucast u :: byte) = 0x0D"
        have "ucast (ucast u :: byte) = u"
          using one_byte_step[OF one, of "[]"] one
          by (simp add: fromUtf8_step_def split: if_splits)
        then have "u = ucast (0x0D :: byte)" using e by simp
        then show False using u by simp
      qed
      then show ?thesis
        unfolding Cons toUtf8_1[OF one] using ih by simp
    next
      case two
      have "unat u div 64 < 32"
        using two(2) by (simp add: word_less_nat_alt less_mult_imp_div_less)
      then have "(192 + of_nat (unat u div 64) :: byte) \<noteq> 0x0D"
        by (intro big) (simp add: lead2_unat)
      then show ?thesis
        unfolding Cons toUtf8_2[OF two] using ih cont by simp
    next
      case three
      have "unat u div 4096 < 16"
        using unit_bound[of u] by (simp add: less_mult_imp_div_less)
      then have "(224 + of_nat (unat u div 4096) :: byte) \<noteq> 0x0D"
        by (intro big) (simp add: lead3_unat)
      then show ?thesis
        unfolding Cons toUtf8_3[OF three] using ih cont by simp
    next
      case (pair low src')
      have ih': "0x0D \<notin> set (toUtf8 src')"
        using less.prems less.hyps[of src'] Cons pair(1) by auto
      have "(240 + of_nat (surrogateToUcs4 u low div 262144 mod 16) :: byte) \<noteq> 0x0D"
        by (intro big) (simp add: lead4_unat)
      then show ?thesis
        unfolding Cons pair(1) toUtf8_4[OF pair(2,3)] using ih' cont by simp
    next
      case lone
      show ?thesis
        unfolding Cons toUtf8_lone[OF lone] using ih by simp
    qed
  qed
qed

text \<open>Only U+FEFF is written as the bytes \<^verbatim>\<open>EF BB BF\<close>.\<close>

lemma toUtf8_BOM: "toUtf8 (0xFEFF # s) = [0xEF, 0xBB, 0xBF] @ toUtf8 s"
  by (simp add: isSurrogate_def)

lemma toUtf8_BOM_only:
  assumes "take 3 (toUtf8 s) = [0xEF, 0xBB, 0xBF]"
  shows "\<exists>rest. s = 0xFEFF # rest"
proof (cases s)
  case Nil
  then show ?thesis using assms by simp
next
  case (Cons u src)
  have ne: "b \<noteq> 0xEF" if "unat b \<noteq> 239" for b :: byte
    using that by auto
  show ?thesis
  proof (cases rule: toUtf8_front[where u = u and src = src])
    case one
    have "unat (ucast u :: byte) < 128"
    proof -
      have "(ucast u :: byte) < 0x80"
        using one_byte_step[OF one, of "[]"]
        by (simp add: fromUtf8_step_def split: if_splits)
      then show ?thesis by (simp add: word_less_nat_alt)
    qed
    then have "(ucast u :: byte) \<noteq> 0xEF"
      by (intro ne) simp
    then show ?thesis
      using assms unfolding Cons toUtf8_1[OF one] by simp
  next
    case two
    have "unat u div 64 < 32"
      using two(2) by (simp add: word_less_nat_alt less_mult_imp_div_less)
    then have "(192 + of_nat (unat u div 64) :: byte) \<noteq> 0xEF"
      by (intro ne) (simp add: lead2_unat)
    then show ?thesis
      using assms unfolding Cons toUtf8_2[OF two] by simp
  next
    case three
    define n where "n = unat u"
    have d: "n div 4096 < 16"
      using unit_bound[of u] by (simp add: n_def less_mult_imp_div_less)
    have b: "(224 + of_nat (n div 4096) :: byte) = 0xEF"
      "(128 + of_nat (n div 64 mod 64) :: byte) = 0xBB"
      "(128 + of_nat (n mod 64) :: byte) = 0xBF"
      using assms unfolding Cons toUtf8_3[OF three] n_def by simp_all
    have "unat (224 + of_nat (n div 4096) :: byte) = 239"
      "unat (128 + of_nat (n div 64 mod 64) :: byte) = 187"
      "unat (128 + of_nat (n mod 64) :: byte) = 191"
      by (simp_all only: b) simp_all
    then have v: "n div 4096 = 15" "n div 64 mod 64 = 59" "n mod 64 = 63"
      using d by (simp_all add: lead3_unat cont_unat)
    have r1: "n div 4096 * 64 + n div 64 mod 64 = n div 64"
      unfolding div_div_64(1) by (rule recompose64)
    have "(n div 4096 * 64 + n div 64 mod 64) * 64 + n mod 64 = n"
      unfolding r1 by (rule recompose64)
    then have "n = 65279"
      unfolding v by simp
    then have "u = 0xFEFF"
      by (simp add: n_def word_unat_eq_iff)
    then show ?thesis
      by (simp add: Cons)
  next
    case (pair low src')
    have "(240 + of_nat (surrogateToUcs4 u low div 262144 mod 16) :: byte) \<noteq> 0xEF"
      by (intro ne) (simp add: lead4_unat)
    then show ?thesis
      using assms unfolding Cons pair(1) toUtf8_4[OF pair(2,3)] by simp
  next
    case lone
    show ?thesis
      using assms unfolding Cons toUtf8_lone[OF lone] by simp
  qed
qed

text \<open>
  The trip through UTF-8: a text comes back unchanged exactly when every surrogate in it
  is paired and it does not start with U+FEFF, which the decoder takes for a byte-order
  mark.
\<close>

lemma fromUtf8_toUtf8:
  assumes "wellFormed s" and "\<forall>rest. s \<noteq> 0xFEFF # rest"
  shows "fromUtf8 (toUtf8 s) = s"
proof -
  have "take 3 (toUtf8 s) \<noteq> [0xEF, 0xBB, 0xBF]"
    using toUtf8_BOM_only[of s] assms(2) by blast
  then show ?thesis
    using assms(1) by (simp add: fromUtf8_def convertToUnicode_toUtf8)
qed

lemma fromUtf8_toUtf8_iff:
  "fromUtf8 (toUtf8 s) = s \<longleftrightarrow> wellFormed s \<and> (\<forall>rest. s \<noteq> 0xFEFF # rest)"
proof
  assume e: "fromUtf8 (toUtf8 s) = s"
  have wf: "wellFormed s"
    using wellFormed_fromUtf8[of "toUtf8 s"] by (simp add: e)
  have False if s: "s = 0xFEFF # rest" for rest
  proof -
    have "wellFormed rest"
      using wf by (simp add: s isSurrogate_def)
    then have "fromUtf8 (toUtf8 s) = rest"
      by (simp only: s toUtf8_BOM fromUtf8_def) (simp add: convertToUnicode_toUtf8)
    then show False
      using e s by simp
  qed
  then show "wellFormed s \<and> (\<forall>rest. s \<noteq> 0xFEFF # rest)"
    using wf by blast
next
  assume "wellFormed s \<and> (\<forall>rest. s \<noteq> 0xFEFF # rest)"
  then show "fromUtf8 (toUtf8 s) = s"
    using fromUtf8_toUtf8 by blast
qed

section \<open>Facts about the marker patterns\<close>

lemma isHexDash_not_space:
  assumes "isHexDash c"
  shows "\<not> isSpace c" and "\<not> isReSpace c" and "c \<noteq> 0x0A" and "c < 0x80"
proof -
  have u: "(0x61 \<le> unat c \<and> unat c \<le> 0x66) \<or> (0x41 \<le> unat c \<and> unat c \<le> 0x46)
      \<or> (0x30 \<le> unat c \<and> unat c \<le> 0x39) \<or> unat c = 0x2D"
    using assms by (auto simp: isHexDash_def word_le_nat_alt word_unat_eq_iff)
  show "\<not> isSpace c"
    using u by (auto simp: isSpace_def word_le_nat_alt word_unat_eq_iff)
  show "\<not> isReSpace c"
    using u by (auto simp: isReSpace_def word_le_nat_alt word_unat_eq_iff)
  show "c \<noteq> 0x0A"
    using u by (auto simp: word_unat_eq_iff)
  show "c < 0x80"
    using u by (auto simp: word_less_nat_alt)
qed

lemma length_markerLiteral: "length markerLiteral = 16"
  by (simp add: markerLiteral_def QStringLiteral_def)

lemma startsWith_append: "startsWith (p @ s) p"
  by (simp add: startsWith_def)

lemma takeWhile_run:
  assumes "list_all P u" and "rest = [] \<or> \<not> P (hd rest)"
  shows "takeWhile P (u @ rest) = u" and "dropWhile P (u @ rest) = rest"
proof -
  have "takeWhile P rest = []" and "dropWhile P rest = rest"
    using assms(2) by (cases rest; simp)+
  then show "takeWhile P (u @ rest) = u" and "dropWhile P (u @ rest) = rest"
    using assms(1) by (simp_all add: list_all_iff)
qed

lemma matchMarkerAt_literal:
  assumes "list_all isHexDash u" and "u \<noteq> []" and "rest = [] \<or> \<not> isHexDash (hd rest)"
  shows "matchMarkerAt (markerLiteral @ u @ rest) = Some (u, rest)"
  using assms takeWhile_run[OF assms(1,3)]
  by (simp add: matchMarkerAt_def startsWith_append)

lemma matchMarkerAt_Some_iff:
  "matchMarkerAt s = Some (g, rest) \<longleftrightarrow>
    s = markerLiteral @ g @ rest \<and> g \<noteq> [] \<and> list_all isHexDash g
      \<and> (rest = [] \<or> \<not> isHexDash (hd rest))"
proof
  assume m: "matchMarkerAt s = Some (g, rest)"
  then have sw: "take (length markerLiteral) s = markerLiteral"
    and g: "g = takeWhile isHexDash (drop (length markerLiteral) s)"
    and r: "rest = dropWhile isHexDash (drop (length markerLiteral) s)"
    and ne: "g \<noteq> []"
    by (auto simp: matchMarkerAt_def startsWith_def Let_def split: if_splits)
  have "s = take (length markerLiteral) s @ drop (length markerLiteral) s" by simp
  also have "\<dots> = markerLiteral @ g @ rest"
    unfolding g r by (simp add: sw)
  finally have "s = markerLiteral @ g @ rest" .
  moreover have "list_all isHexDash g"
    unfolding g by (simp add: list_all_iff) (meson set_takeWhileD)
  moreover have "rest = [] \<or> \<not> isHexDash (hd rest)"
    unfolding r by (metis hd_dropWhile)
  ultimately show "s = markerLiteral @ g @ rest \<and> g \<noteq> [] \<and> list_all isHexDash g
      \<and> (rest = [] \<or> \<not> isHexDash (hd rest))"
    using ne by simp
next
  assume "s = markerLiteral @ g @ rest \<and> g \<noteq> [] \<and> list_all isHexDash g
      \<and> (rest = [] \<or> \<not> isHexDash (hd rest))"
  then show "matchMarkerAt s = Some (g, rest)"
    by (simp add: matchMarkerAt_literal)
qed

text \<open>Whether the pattern matches at the start of a text depends on its first 17 code units only.\<close>

lemma matchMarkerAt_None_iff:
  "matchMarkerAt s = None \<longleftrightarrow>
    \<not> (\<exists>h t. s = markerLiteral @ h # t \<and> isHexDash h)"
proof -
  have "matchMarkerAt s \<noteq> None \<longleftrightarrow> (\<exists>h t. s = markerLiteral @ h # t \<and> isHexDash h)"
  proof
    assume "matchMarkerAt s \<noteq> None"
    then obtain g rest where "matchMarkerAt s = Some (g, rest)" by auto
    then have s: "s = markerLiteral @ g @ rest" and "g \<noteq> []" and "list_all isHexDash g"
      by (simp_all add: matchMarkerAt_Some_iff)
    then obtain h g' where "g = h # g'" and "isHexDash h"
      by (cases g) auto
    with s show "\<exists>h t. s = markerLiteral @ h # t \<and> isHexDash h" by auto
  next
    assume "\<exists>h t. s = markerLiteral @ h # t \<and> isHexDash h"
    then obtain h t where s: "s = markerLiteral @ h # t" and h: "isHexDash h" by auto
    then show "matchMarkerAt s \<noteq> None"
      by (simp add: matchMarkerAt_def startsWith_append Let_def)
  qed
  then show ?thesis by blast
qed

lemma matchMarkerAt_append_None:
  "matchMarkerAt (s @ t) = None \<Longrightarrow> matchMarkerAt s = None"
  unfolding matchMarkerAt_None_iff by auto

lemma matchMarkerAt_Nil: "matchMarkerAt [] = None"
  by (simp add: matchMarkerAt_def startsWith_def markerLiteral_def QStringLiteral_def)

lemma firstCaptured_None_iff:
  "firstCaptured s = None \<longleftrightarrow> (\<forall>k. matchMarkerAt (drop k s) = None)"
proof (induction s)
  case Nil
  show ?case by (simp add: matchMarkerAt_Nil)
next
  case (Cons c cs)
  have "(\<forall>k. matchMarkerAt (drop k (c # cs)) = None)
      \<longleftrightarrow> matchMarkerAt (c # cs) = None \<and> (\<forall>k. matchMarkerAt (drop k cs) = None)"
  proof
    assume a: "\<forall>k. matchMarkerAt (drop k (c # cs)) = None"
    have "matchMarkerAt (drop k cs) = None" for k
      using a[rule_format, of "Suc k"] by simp
    moreover have "matchMarkerAt (c # cs) = None"
      using a[rule_format, of 0] by simp
    ultimately show "matchMarkerAt (c # cs) = None \<and> (\<forall>k. matchMarkerAt (drop k cs) = None)"
      by simp
  next
    assume a: "matchMarkerAt (c # cs) = None \<and> (\<forall>k. matchMarkerAt (drop k cs) = None)"
    show "\<forall>k. matchMarkerAt (drop k (c # cs)) = None"
    proof
      fix k
      show "matchMarkerAt (drop k (c # cs)) = None"
        using a by (cases k) simp_all
    qed
  qed
  then show ?case
    using Cons.IH by (auto split: option.splits)
qed

lemma firstCaptured_drop:
  "firstCaptured s = None \<Longrightarrow> firstCaptured (drop k s) = None"
  by (simp add: firstCaptured_None_iff)

lemma firstCaptured_dropWhile:
  "firstCaptured s = None \<Longrightarrow> firstCaptured (dropWhile P s) = None"
  using firstCaptured_drop[of s "length (takeWhile P s)"]
  by (simp add: dropWhile_eq_drop)

lemma firstCaptured_Some:
  "firstCaptured s = Some g \<Longrightarrow> g \<noteq> [] \<and> list_all isHexDash g"
proof (induction s)
  case Nil
  then show ?case by simp
next
  case (Cons c cs)
  show ?case
  proof (cases "matchMarkerAt (c # cs)")
    case None
    with Cons show ?thesis by simp
  next
    case (Some m)
    obtain g' rest where m: "m = (g', rest)" by (cases m)
    with Some Cons.prems have "g' = g" by simp
    with Some m show ?thesis by (simp add: matchMarkerAt_Some_iff)
  qed
qed

lemma removeMatches_match:
  assumes "matchMarkerAt s = Some (g, rest)"
  shows "removeMatches s = removeMatches (dropWhile isReSpace rest)"
proof (cases s)
  case Nil
  with assms show ?thesis by (simp add: matchMarkerAt_Nil)
next
  case (Cons c cs)
  with assms show ?thesis by simp
qed

lemma removeMatches_no_match:
  "firstCaptured s = None \<Longrightarrow> removeMatches s = s"
  by (induction s) (auto split: option.splits)

lemma removeMatches_subseq: "subseq (removeMatches s) s"
proof (induction s rule: removeMatches.induct)
  case 1
  show ?case by simp
next
  case (2 c cs)
  show ?case
  proof (cases "matchMarkerAt (c # cs)")
    case None
    with 2 show ?thesis by simp
  next
    case (Some m)
    obtain g rest where m: "m = (g, rest)" by (cases m)
    have s: "c # cs = markerLiteral @ g @ rest"
      using Some m by (simp add: matchMarkerAt_Some_iff)
    have "subseq (removeMatches (dropWhile isReSpace rest)) (dropWhile isReSpace rest)"
      using 2(2)[OF Some m[symmetric]] by simp
    also have "subseq (dropWhile isReSpace rest) rest"
      by (metis suffix_dropWhile suffix_imp_subseq)
    also have "subseq rest (c # cs)"
      unfolding s by (metis suffixI append.assoc suffix_imp_subseq)
    finally show ?thesis using Some m by simp
  qed
qed

lemma trimmed_hexdash:
  assumes "list_all isHexDash g"
  shows "trimmed g = g"
proof -
  have d: "dropWhile isSpace xs = xs" if "list_all isHexDash xs" for xs
    using that by (cases xs) (auto simp: isHexDash_not_space)
  have "list_all isHexDash (rev g)"
    using assms by (simp add: list_all_iff)
  then show ?thesis
    using assms by (simp add: trimmed_def d)
qed

section \<open>Facts about text mode\<close>

lemma textModeRead_id: "0x0D \<notin> set ba \<Longrightarrow> textModeRead ba = ba"
  by (auto simp: textModeRead_def filter_id_conv)

lemma textModeRead_no_CR: "0x0D \<notin> set (textModeRead ba)"
  by (simp add: textModeRead_def)

lemma textModeRead_crlf: "textModeRead (crlf ba) = textModeRead ba"
  by (induction ba) (simp_all add: textModeRead_def)

lemma textModeRead_write: "textModeRead (textModeWrite w ba) = textModeRead ba"
  by (simp add: textModeWrite_def textModeRead_crlf)

text \<open>
  A text that the code writes to a text-mode file is read back unchanged when its
  surrogates are paired, it holds no carriage return and does not start with U+FEFF.
\<close>

lemma read_plain:
  assumes "wellFormed s" and "0x0D \<notin> set s" and "\<forall>rest. s \<noteq> 0xFEFF # rest"
  shows "fromUtf8 (textModeRead (toUtf8 s)) = s"
proof -
  have "textModeRead (toUtf8 s) = toUtf8 s"
    using assms(2) by (intro textModeRead_id toUtf8_no_CR)
  then show ?thesis
    using assms(1,3) by (simp add: fromUtf8_toUtf8)
qed

lemma read_back:
  assumes "wellFormed s" and "0x0D \<notin> set s" and "\<forall>rest. s \<noteq> 0xFEFF # rest"
  shows "fromUtf8 (textModeRead (textModeWrite w (toUtf8 s))) = s"
  using read_plain[OF assms] by (simp add: textModeRead_write)

lemma anchorText_wellFormed: "wellFormed (anchorText w)"
  by (simp add: anchorText_def wellFormed_fromUtf8)

lemma anchorText_no_CR: "0x0D \<notin> set (anchorText w)"
  unfolding anchorText_def by (intro fromUtf8_no_CR textModeRead_no_CR)

subsection \<open>Texts without surrogates\<close>

lemma wellFormed_plain: "list_all (\<lambda>c. \<not> isSurrogate c) s \<Longrightarrow> wellFormed s"
  by (induction s) simp_all

lemma isHexDash_unat:
  assumes "isHexDash c"
  shows "unat c < 128" and "unat c \<noteq> 13"
proof -
  have "(0x61 \<le> unat c \<and> unat c \<le> 0x66) \<or> (0x41 \<le> unat c \<and> unat c \<le> 0x46)
      \<or> (0x30 \<le> unat c \<and> unat c \<le> 0x39) \<or> unat c = 0x2D"
    using assms by (simp add: isHexDash_def word_le_nat_alt word_unat_eq_iff)
  then show "unat c < 128" and "unat c \<noteq> 13"
    by auto
qed

lemma isReSpace_unat: "isReSpace c \<Longrightarrow> unat c < 128"
  by (auto simp: isReSpace_def word_le_nat_alt word_unat_eq_iff)

lemma small_plain: "unat (c :: QChar) < 128 \<Longrightarrow> \<not> isSurrogate c"
  by (simp add: isSurrogate_def)

lemma hexdash_plain: "list_all isHexDash u \<Longrightarrow> list_all (\<lambda>c. \<not> isSurrogate c) u"
  by (induction u) (simp_all add: small_plain isHexDash_unat)

lemma hexdash_no_CR: "list_all isHexDash u \<Longrightarrow> 0x0D \<notin> set u"
proof (induction u)
  case Nil
  show ?case by simp
next
  case (Cons c u)
  then have "unat c \<noteq> 13"
    by (simp add: isHexDash_unat)
  then have "c \<noteq> 0x0D" by auto
  then show ?case using Cons by simp
qed

lemma space_plain: "list_all isReSpace u \<Longrightarrow> list_all (\<lambda>c. \<not> isSurrogate c) u"
  by (induction u) (simp_all add: small_plain isReSpace_unat)

lemma markerLiteral_plain: "list_all (\<lambda>c. \<not> isSurrogate c) markerLiteral"
  by (simp add: markerLiteral_def QStringLiteral_def isSurrogate_def)

lemma markerLiteral_no_CR: "0x0D \<notin> set markerLiteral"
  by (simp add: markerLiteral_def QStringLiteral_def)

lemma wellFormed_uuidComment: "wellFormed u \<Longrightarrow> wellFormed (uuidComment u)"
proof -
  assume u: "wellFormed u"
  have "wellFormed (u @ [0x0A])"
    using wellFormed_append[OF u, of "[0x0A]"] by (simp add: isSurrogate_def)
  then show ?thesis
    unfolding uuidComment_def
    using wellFormed_append[OF wellFormed_plain[OF markerLiteral_plain]] by simp
qed

lemma uuidComment_no_CR: "0x0D \<notin> set u \<Longrightarrow> 0x0D \<notin> set (uuidComment u)"
  by (simp add: uuidComment_def markerLiteral_no_CR)

lemma uuidComment_no_BOM: "uuidComment u @ s \<noteq> 0xFEFF # rest"
  by (simp add: uuidComment_def markerLiteral_def QStringLiteral_def)

subsection \<open>Cutting markers out of a well-formed text\<close>

lemma matchMarkerAt_first: "matchMarkerAt (c # cs) \<noteq> None \<Longrightarrow> c = 0x23"
  by (auto simp: matchMarkerAt_def startsWith_def markerLiteral_def QStringLiteral_def
      split: if_splits)

lemma wellFormed_drop_plain:
  assumes "wellFormed (p @ s)" and "list_all (\<lambda>c. \<not> isSurrogate c) p"
  shows "wellFormed s"
proof -
  have "wellFormed (p @ s) = wellFormed s"
    by (rule wellFormed_append[OF wellFormed_plain[OF assms(2)]])
  then show ?thesis
    using assms(1) by blast
qed

lemma dropWhile_space_split:
  "\<exists>sp. rest = sp @ dropWhile isReSpace rest \<and> list_all isReSpace sp"
proof -
  have "list_all isReSpace (takeWhile isReSpace rest)"
    by (auto simp: list_all_iff dest: set_takeWhileD)
  moreover have "rest = takeWhile isReSpace rest @ dropWhile isReSpace rest"
    by simp
  ultimately show ?thesis
    by blast
qed

lemma removeMatches_wellFormed: "wellFormed s \<Longrightarrow> wellFormed (removeMatches s)"
proof (induction "length s" arbitrary: s rule: less_induct)
  case less
  show ?case
  proof (cases s)
    case Nil
    then show ?thesis by simp
  next
    case (Cons c cs)
    show ?thesis
    proof (cases "matchMarkerAt (c # cs)")
      case (Some r)
      obtain g rest where r: "r = (g, rest)" by (cases r)
      have m: "matchMarkerAt s = Some (g, rest)"
        using Some r Cons by simp
      then have s: "s = markerLiteral @ g @ rest" and g: "list_all isHexDash g"
        by (simp_all add: matchMarkerAt_Some_iff)
      obtain sp where sp: "rest = sp @ dropWhile isReSpace rest" "list_all isReSpace sp"
        using dropWhile_space_split[of rest] by blast
      have "s = (markerLiteral @ g @ sp) @ dropWhile isReSpace rest"
        using s sp(1) by simp
      moreover have "list_all (\<lambda>c. \<not> isSurrogate c) (markerLiteral @ g @ sp)"
        using markerLiteral_plain hexdash_plain[OF g] space_plain[OF sp(2)] by simp
      ultimately have "wellFormed (dropWhile isReSpace rest)"
        using less.prems wellFormed_drop_plain by metis
      moreover have "length (dropWhile isReSpace rest) < length s"
        using m by (rule matchMarkerAt_shorter)
      ultimately have "wellFormed (removeMatches (dropWhile isReSpace rest))"
        using less.hyps by blast
      then show ?thesis
        using removeMatches_match[OF m] by simp
    next
      case None
      show ?thesis
      proof (cases "isSurrogate c")
        case False
        then have "wellFormed cs"
          using less.prems Cons by simp
        then have "wellFormed (removeMatches cs)"
          using less.hyps[of cs] Cons by simp
        then show ?thesis
          using None False Cons by simp
      next
        case True
        then obtain low cs' where cs: "cs = low # cs'"
          and hl: "isHighSurrogate c" "isLowSurrogate low" and wf: "wellFormed cs'"
          using less.prems Cons by (auto split: list.splits)
        have "low \<noteq> 0x23"
          using hl(2) by (auto simp: isLowSurrogate_def)
        then have n: "matchMarkerAt (low # cs') = None"
          using matchMarkerAt_first[of low cs'] by blast
        have "wellFormed (removeMatches cs')"
          using less.hyps[of cs'] wf Cons cs by simp
        then show ?thesis
          using None n True hl Cons cs by simp
      qed
    qed
  qed
qed

lemma removeMatches_no_CR: "0x0D \<notin> set s \<Longrightarrow> 0x0D \<notin> set (removeMatches s)"
proof
  assume a: "0x0D \<notin> set s" and b: "0x0D \<in> set (removeMatches s)"
  from list_emb_set[OF removeMatches_subseq b] obtain y where "y \<in> set s" "0x0D = y"
    by blast
  with a show False by simp
qed

section \<open>Facts about the validator and the sample machine\<close>

lemma anyInterfaceHas_iff:
  "anyInterfaceHas ifs m \<longleftrightarrow> (\<exists>interface \<in> set ifs. hardwareAddress interface = m)"
  by (induction ifs) auto

lemma xorDecrypt_Nil: "xorDecrypt [] key = []"
  by (simp add: xorDecrypt_def toLatin1_def fromBase64_def)

lemma firstCaptured_match:
  assumes "matchMarkerAt s = Some (g, rest)"
  shows "firstCaptured s = Some g"
proof (cases s)
  case Nil
  with assms show ?thesis by (simp add: matchMarkerAt_Nil)
next
  case (Cons c cs)
  with assms show ?thesis by simp
qed

lemma firstCaptured_uuidComment:
  assumes "list_all isHexDash u" and "u \<noteq> []"
  shows "firstCaptured (uuidComment u @ rest) = Some u"
proof -
  have "matchMarkerAt (markerLiteral @ u @ (0x0A # rest)) = Some (u, 0x0A # rest)"
    using assms by (intro matchMarkerAt_literal) (simp_all add: isHexDash_def)
  then show ?thesis
    by (simp add: uuidComment_def firstCaptured_match)
qed

lemma sampleUuid_hexdash: "list_all isHexDash sampleUuid" "sampleUuid \<noteq> []"
  "length sampleUuid = 36" "0x2D \<in> set sampleUuid"
  by (simp_all add: sampleUuid_def QStringLiteral_def isHexDash_def)

lemma sampleMac_facts: "sampleMac \<noteq> []" "sampleMac \<noteq> QStringLiteral ''00:00:00:00:00:00''"
  by (simp_all add: sampleMac_def QStringLiteral_def)

lemma sample_firstMac: "getFirstMacAddress sampleWorld = sampleMac"
  by (simp add: getFirstMacAddress_def sampleWorld_def sampleMac_facts)

lemma sample_keyBytes:
  "toUtf8 (generateKeyFromMac sampleMac) = 0x41 # map of_char ''A:BB:CC:DD:EE:FF|QBIT_PAYWALL_SALT_2024|''"
  by (simp add: generateKeyFromMac_def sampleMac_def QStringLiteral_def)

lemma sample_keyBytes_ne: "toUtf8 (generateKeyFromMac sampleMac) \<noteq> []"
  by (simp add: sample_keyBytes)

lemma sample_encrypt: "xorEncrypt [0x4A] (generateKeyFromMac sampleMac) = QStringLiteral ''Cw==''"
proof -
  have a: "xorLoop 0 [0x4A] (toUtf8 (generateKeyFromMac sampleMac)) = [0x0B]"
    unfolding sample_keyBytes by (simp add: xorLoop.simps)
  show ?thesis
    by (simp add: xorEncrypt_def sample_keyBytes_ne a fromLatin1_def QStringLiteral_def alphabet_def padchar_def)
qed

lemma sample_decrypt: "xorDecrypt (QStringLiteral ''Cw=='') (generateKeyFromMac sampleMac) = [0x4A]"
proof -
  have a: "fromBase64 (toLatin1 (QStringLiteral ''Cw=='')) = [0x0B]"
    by (simp add: toLatin1_def QStringLiteral_def fromBase64_def base64_digit_def)
  have b: "xorLoop 0 [0x0B] (toUtf8 (generateKeyFromMac sampleMac)) = [0x4A]"
    unfolding sample_keyBytes by (simp add: xorLoop.simps)
  show ?thesis
    by (simp add: xorDecrypt_def sample_keyBytes_ne a b fromUtf8_def fromUtf8_step_def)
qed

lemma sample_blob: "licenseFile sampleWorld = Some [0x43, 0x77, 0x3D, 0x3D]"
  by (simp add: sampleWorld_def sample_encrypt) (simp add: QStringLiteral_def)

lemma sample_anchor_text:
  "anchorText sampleWorld = uuidComment sampleUuid @ QStringLiteral ''project(test)''"
proof -
  have "wellFormed (uuidComment sampleUuid @ QStringLiteral ''project(test)'')"
    by (intro wellFormed_plain)
      (simp add: uuidComment_def markerLiteral_def sampleUuid_def QStringLiteral_def
        isSurrogate_def)
  moreover have "0x0D \<notin> set (uuidComment sampleUuid @ QStringLiteral ''project(test)'')"
    by (simp add: uuidComment_def markerLiteral_def sampleUuid_def QStringLiteral_def)
  ultimately have "fromUtf8 (textModeRead
      (toUtf8 (uuidComment sampleUuid @ QStringLiteral ''project(test)'')))
    = uuidComment sampleUuid @ QStringLiteral ''project(test)''"
    by (intro read_plain) (simp_all add: uuidComment_no_BOM)
  then show ?thesis
    by (simp add: anchorText_def sampleWorld_def)
qed

lemma sample_firstCaptured: "firstCaptured (anchorText sampleWorld) = Some sampleUuid"
  by (simp add: sample_anchor_text firstCaptured_uuidComment sampleUuid_hexdash)

lemma loadUuid_anchorText:
  "loadUuidFromConfig w =
    (if anchorFile w = None \<or> \<not> anchorReadable w then []
     else (case firstCaptured (anchorText w) of
         None \<Rightarrow> []
       | Some g \<Rightarrow> if 0x2D \<in> set g \<and> length g = 36 then g else []))"
proof -
  have "trimmed g = g" if "firstCaptured s = Some g" for s g
    using firstCaptured_Some[OF that] by (simp add: trimmed_hexdash)
  then show ?thesis
    by (auto simp: loadUuidFromConfig_def anchorText_def Let_def split: option.splits)
qed

lemma sample_loadUuid: "loadUuidFromConfig sampleWorld = sampleUuid"
proof -
  have f: "anchorFile sampleWorld
      = Some (toUtf8 (uuidComment sampleUuid @ QStringLiteral ''project(test)''))"
    "anchorReadable sampleWorld"
    by (simp_all add: sampleWorld_def)
  show ?thesis
    by (simp add: loadUuid_anchorText f sample_firstCaptured sampleUuid_hexdash)
qed

lemma sample_loadLicense:
  "loadLicense sampleQt sampleWorld =
    \<lparr>email = QStringLiteral ''a@example.com'', mac = sampleMac, uuid = sampleUuid,
     issued = Some 1000, expires = Some 2000\<rparr>"
proof -
  have enc: "fromUtf8 (textModeRead [0x43, 0x77, 0x3D, 0x3D]) = QStringLiteral ''Cw==''"
    by (simp add: textModeRead_def fromUtf8_def fromUtf8_step_def QStringLiteral_def)
  have ne: "QStringLiteral ''Cw=='' \<noteq> []"
    by (simp add: QStringLiteral_def)
  have parse: "fromJsonString sampleQt [0x4A] =
    \<lparr>email = QStringLiteral ''a@example.com'', mac = sampleMac, uuid = sampleUuid,
     issued = Some 1000, expires = Some 2000\<rparr>"
    by (simp add: fromJsonString_def sampleQt_def sampleLibrary_def sampleObject_def
        valueToString_def QStringLiteral_def)
  show ?thesis
    unfolding loadLicense_def
    by (simp add: sample_blob enc ne sample_firstMac sampleMac_facts sample_decrypt parse
        sampleWorld_def[THEN arg_cong, of licenseReadable])
qed

lemma sample_systemHas: "systemHasMacAddress sampleWorld sampleMac"
  by (simp add: systemHasMacAddress_def sampleWorld_def sampleMac_facts)

lemma sample_valid: "hasValidLicense sampleQt sampleWorld"
  by (simp add: hasValidLicense_def sample_loadLicense isEmpty_def QStringLiteral_def
      sample_systemHas sample_loadUuid sampleUuid_hexdash isLicenseExpired_def
      sampleWorld_def[THEN arg_cong, of currentDateTime])

section \<open>Facts about lines\<close>

lemma splitLines_first_line:
  "0x0A \<notin> set p \<Longrightarrow> splitLines (p @ 0x0A # rest) = (p @ [0x0A]) # splitLines rest"
  by (induction p) auto

lemma markerLiteral_no_newline: "0x0A \<notin> set markerLiteral"
  by (simp add: markerLiteral_def QStringLiteral_def)

lemma hexdash_no_newline: "list_all isHexDash u \<Longrightarrow> 0x0A \<notin> set u"
proof
  assume "list_all isHexDash u" and "0x0A \<in> set u"
  then have "isHexDash 0x0A" by (simp add: list_all_iff)
  then show False by (simp add: isHexDash_def)
qed

lemma splitLines_uuidComment:
  "list_all isHexDash u \<Longrightarrow> splitLines (uuidComment u @ rest) = uuidComment u # splitLines rest"
  using splitLines_first_line[of "markerLiteral @ u" rest]
  by (simp add: uuidComment_def markerLiteral_no_newline hexdash_no_newline)

lemma isMarkerLine_uuidComment:
  "list_all isHexDash u \<Longrightarrow> u \<noteq> [] \<Longrightarrow> isMarkerLine (uuidComment u)"
  using firstCaptured_uuidComment[of u "[]"] by (simp add: isMarkerLine_def)

lemma matchMarkerAt_Cons_line:
  assumes "matchMarkerAt (c # l @ rest) = None"
  shows "matchMarkerAt (c # l) = None"
  using matchMarkerAt_append_None[of "c # l" rest] assms by simp

lemma no_match_no_marker_line:
  "firstCaptured s = None \<Longrightarrow> list_all (\<lambda>l. \<not> isMarkerLine l) (splitLines s)"
proof (induction s)
  case Nil
  show ?case by simp
next
  case (Cons c cs)
  then have here: "matchMarkerAt (c # cs) = None" and later: "firstCaptured cs = None"
    by (auto split: option.splits)
  have ih: "list_all (\<lambda>l. \<not> isMarkerLine l) (splitLines cs)"
    using Cons.IH later by simp
  have cat: "concat (splitLines xs) = xs" for xs :: QString
    by (induction xs) (auto split: list.splits)
  show ?case
  proof (cases "c = 0x0A")
    case True
    have "matchMarkerAt [c] = None"
      using matchMarkerAt_Cons_line[of c "[]" cs] here by simp
    then have "\<not> isMarkerLine [c]"
      by (simp add: isMarkerLine_def matchMarkerAt_Nil)
    with True ih show ?thesis by simp
  next
    case False
    show ?thesis
    proof (cases "splitLines cs")
      case Nil
      then have "cs = []" using cat[of cs] by simp
      then have "\<not> isMarkerLine [c]"
        using here by (simp add: isMarkerLine_def)
      with False Nil show ?thesis by simp
    next
      case (Cons l ls)
      then have cs: "cs = l @ concat ls" using cat[of cs] by simp
      have "matchMarkerAt (c # l) = None"
        using matchMarkerAt_Cons_line[of c l "concat ls"] here cs by simp
      moreover have "\<not> isMarkerLine l"
        using ih Cons by simp
      ultimately have "\<not> isMarkerLine (c # l)"
        by (simp add: isMarkerLine_def)
      with False Cons ih show ?thesis by simp
    qed
  qed
qed

lemma markerLines_uuidComment:
  assumes "list_all isHexDash u" and "u \<noteq> []" and "firstCaptured rest = None"
  shows "markerLines (uuidComment u @ rest) = [uuidComment u]"
proof -
  have "filter isMarkerLine (splitLines rest) = []"
    using no_match_no_marker_line[OF assms(3)] by (simp add: list_all_iff filter_empty_conv)
  then show ?thesis
    using assms by (simp add: markerLines_def splitLines_uuidComment isMarkerLine_uuidComment)
qed

section \<open>Facts about the anchor write\<close>

lemma toUtf8_append:
  "zs = [] \<or> \<not> isLowSurrogate (hd zs) \<Longrightarrow> toUtf8 (xs @ zs) = toUtf8 xs @ toUtf8 zs"
proof (induction xs rule: toUtf8.induct)
  case 1
  show ?case by simp
next
  case (2 u src)
  show ?case
  proof (cases "u < 0x80 \<or> u < 0x800 \<or> \<not> isSurrogate u")
    case True
    then consider (one) "u < 0x80" | (two) "\<not> u < 0x80" "u < 0x800"
      | (three) "\<not> u < 0x80" "\<not> u < 0x800" "\<not> isSurrogate u"
      by blast
    then show ?thesis
    proof cases
      case one
      then show ?thesis using "2.IH"(1)[OF one "2.prems"] by simp
    next
      case two
      then show ?thesis using "2.IH"(2)[OF two "2.prems"] by simp
    next
      case three
      then show ?thesis using "2.IH"(3)[OF three "2.prems"] by simp
    qed
  next
    case False
    then have s: "\<not> u < 0x80" "\<not> u < 0x800" "isSurrogate u" by auto
    show ?thesis
    proof (cases src)
      case Nil
      then show ?thesis using s "2.prems" by (cases zs) simp_all
    next
      case (Cons low src')
      show ?thesis
      proof (cases "isHighSurrogate u \<and> isLowSurrogate low")
        case True
        have "toUtf8 (src' @ zs) = toUtf8 src' @ toUtf8 zs"
          using "2.IH"(4)[OF s(1) s(2) _ Cons True refl] s(3) "2.prems" by simp
        then show ?thesis
          using s Cons True by (simp add: Let_def)
      next
        case False
        have ih: "toUtf8 (src @ zs) = toUtf8 src @ toUtf8 zs"
          using "2.IH"(5)[OF s(1) s(2) _ Cons False] s(3) "2.prems" by simp
        have step: "toUtf8 (u # (src @ zs)) = 0x3F # toUtf8 (src @ zs)"
          by (subst toUtf8.simps(2)) (use s Cons False in \<open>auto simp del: toUtf8.simps\<close>)
        have step': "toUtf8 (u # src) = 0x3F # toUtf8 src"
          by (subst toUtf8.simps(2)) (use s Cons False in \<open>auto simp del: toUtf8.simps\<close>)
        show ?thesis
          by (simp only: append_Cons step step' ih)
      qed
    qed
  qed
qed

lemma wellFormed_hd: "wellFormed s \<Longrightarrow> s = [] \<or> \<not> isLowSurrogate (hd s)"
  by (cases s) (auto simp: isSurrogate_def isLowSurrogate_def isHighSurrogate_def
      split: if_splits list.splits)

lemma newAnchorContent_clean:
  assumes "list_all isHexDash u" and "u \<noteq> []" and "firstCaptured (removeMatches s) = None"
  shows "newAnchorContent s u = uuidComment u @ removeMatches s"
proof -
  have "\<not> startsWith (removeMatches s) (uuidComment u)"
  proof
    assume "startsWith (removeMatches s) (uuidComment u)"
    then obtain rest where r: "removeMatches s = uuidComment u @ rest"
      by (metis startsWith_def append_take_drop_id)
    have "firstCaptured (uuidComment u @ rest) = Some u"
      using assms by (simp add: firstCaptured_uuidComment)
    with r assms(3) show False by simp
  qed
  then show ?thesis by (simp add: newAnchorContent_def)
qed

lemma removeMatches_uuidComment:
  assumes "list_all isHexDash u" and "u \<noteq> []"
  shows "removeMatches (uuidComment u @ rest) = removeMatches (dropWhile isReSpace rest)"
proof -
  have "matchMarkerAt (markerLiteral @ u @ (0x0A # rest)) = Some (u, 0x0A # rest)"
    using assms by (intro matchMarkerAt_literal) (simp_all add: isHexDash_def)
  then have "removeMatches (markerLiteral @ u @ (0x0A # rest))
      = removeMatches (dropWhile isReSpace (0x0A # rest))"
    by (rule removeMatches_match)
  then show ?thesis
    by (simp add: uuidComment_def isReSpace_def)
qed

subsection \<open>The text written\<close>

lemma newAnchorContent_cases:
  "newAnchorContent s u =
    (if startsWith (removeMatches s) (uuidComment u) then removeMatches s
     else uuidComment u @ removeMatches s)"
  by (simp add: newAnchorContent_def Let_def)

lemma newAnchorContent_prefix: "\<exists>rest. newAnchorContent s u = uuidComment u @ rest"
proof (cases "startsWith (removeMatches s) (uuidComment u)")
  case True
  then have "removeMatches s = uuidComment u @ drop (length (uuidComment u)) (removeMatches s)"
    by (metis startsWith_def append_take_drop_id)
  then show ?thesis
    using True by (auto simp: newAnchorContent_cases)
next
  case False
  then show ?thesis
    by (simp add: newAnchorContent_cases)
qed

lemma newAnchorContent_readable:
  assumes "wellFormed s" and "0x0D \<notin> set s" and "wellFormed u" and "0x0D \<notin> set u"
  shows "wellFormed (newAnchorContent s u)" and "0x0D \<notin> set (newAnchorContent s u)"
    and "\<forall>rest. newAnchorContent s u \<noteq> 0xFEFF # rest"
proof -
  have r: "wellFormed (removeMatches s)" "0x0D \<notin> set (removeMatches s)"
    using assms(1,2) by (simp_all add: removeMatches_wellFormed removeMatches_no_CR)
  have "wellFormed (uuidComment u @ removeMatches s)"
    using wellFormed_append[OF wellFormed_uuidComment[OF assms(3)]] r(1) by simp
  then show "wellFormed (newAnchorContent s u)"
    using r(1) by (simp add: newAnchorContent_cases)
  show "0x0D \<notin> set (newAnchorContent s u)"
    using r(2) uuidComment_no_CR[OF assms(4)] by (simp add: newAnchorContent_cases)
  show "\<forall>rest. newAnchorContent s u \<noteq> 0xFEFF # rest"
    using newAnchorContent_prefix[of s u] uuidComment_no_BOM by metis
qed

subsection \<open>The state after the write\<close>

lemma createAnchor_keeps:
  assumes "createAnchorIfMissing w = (ok, w1)"
  shows "anchorText w1 = anchorText w" and "licenseFile w1 = licenseFile w"
    and "anchorReadable w1 = anchorReadable w" and "anchorWritable w1 = anchorWritable w"
    and "licenseWritable w1 = licenseWritable w" and "allInterfaces w1 = allInterfaces w"
    and "anchorWriteFault w1 = anchorWriteFault w" and "crlfLineEnds w1 = crlfLineEnds w"
    and "textModeWrite w1 = textModeWrite w"
    and "ok \<longrightarrow> anchorFile w1 \<noteq> None"
    and "anchorFile w \<noteq> None \<longrightarrow> w1 = w \<and> ok"
    and "ok \<longleftrightarrow> anchorFile w \<noteq> None \<or> (testDirExists w \<or> mkpathOk w) \<and> anchorWritable w"
  using assms
  by (auto simp: createAnchorIfMissing_def anchorText_def textModeWrite_def fun_eq_iff Let_def
      split: if_splits)

text \<open>The bytes that \<^verbatim>\<open>saveUuidToConfig\<close> hands to the file.\<close>

lemma saveUuid_success:
  assumes "saveUuidToConfig w u = (True, w')"
  shows "\<exists>w1. createAnchorIfMissing w = (True, w1)
    \<and> w' = w1\<lparr>anchorFile := Some (stored (anchorWriteFault w)
                  (textModeWrite w (toUtf8 (newAnchorContent (anchorText w) u)))),
               fsLog := fsLog w1
                  @ [WriteAnchor (textModeWrite w (toUtf8 (newAnchorContent (anchorText w) u)))]\<rparr>
    \<and> u \<noteq> [] \<and> anchorReadable w \<and> anchorWritable w"
proof -
  obtain ok w1 where c: "createAnchorIfMissing w = (ok, w1)"
    by (cases "createAnchorIfMissing w")
  have ok: "ok" and u: "u \<noteq> []" and rw: "anchorReadable w1" "anchorWritable w1"
    using assms c by (auto simp: saveUuidToConfig_def Let_def split: if_splits bool.splits)
  have "w' = w1\<lparr>anchorFile := Some (stored (anchorWriteFault w1)
                  (textModeWrite w1 (toUtf8 (newAnchorContent (anchorText w1) u)))),
               fsLog := fsLog w1
                  @ [WriteAnchor (textModeWrite w1 (toUtf8 (newAnchorContent (anchorText w1) u)))]\<rparr>"
    using assms c ok u rw by (simp add: saveUuidToConfig_def Let_def)
  then show ?thesis
    using c ok u rw createAnchor_keeps(1,3,4,7,9)[OF c] by (intro exI[of _ w1]) simp
qed

lemma saveUuid_state:
  assumes "saveUuidToConfig w u = (True, w')"
  shows "anchorFile w' = Some (stored (anchorWriteFault w)
            (textModeWrite w (toUtf8 (newAnchorContent (anchorText w) u))))"
    and "licenseFile w' = licenseFile w"
    and "anchorWriteFault w' = anchorWriteFault w"
    and "anchorReadable w'" and "anchorWritable w'"
proof -
  from saveUuid_success[OF assms] obtain w1 where c: "createAnchorIfMissing w = (True, w1)"
    and w': "w' = w1\<lparr>anchorFile := Some (stored (anchorWriteFault w)
                  (textModeWrite w (toUtf8 (newAnchorContent (anchorText w) u)))),
               fsLog := fsLog w1
                  @ [WriteAnchor (textModeWrite w (toUtf8 (newAnchorContent (anchorText w) u)))]\<rparr>"
    and rw: "anchorReadable w" "anchorWritable w"
    by (elim exE conjE)
  show "anchorFile w' = Some (stored (anchorWriteFault w)
            (textModeWrite w (toUtf8 (newAnchorContent (anchorText w) u))))"
    by (simp add: w')
  show "licenseFile w' = licenseFile w"
    by (simp add: w' createAnchor_keeps(2)[OF c])
  show "anchorWriteFault w' = anchorWriteFault w"
    by (simp add: w' createAnchor_keeps(7)[OF c])
  show "anchorReadable w'" and "anchorWritable w'"
    using rw by (simp_all add: w' createAnchor_keeps(3,4)[OF c])
qed

text \<open>When the write reaches the file, the text written is the text read back.\<close>

lemma saveUuid_text:
  assumes "saveUuidToConfig w u = (True, w')" and "anchorWriteFault w = None"
    and "wellFormed u" and "0x0D \<notin> set u"
  shows "anchorText w' = newAnchorContent (anchorText w) u"
proof -
  have "anchorFile w' = Some (textModeWrite w (toUtf8 (newAnchorContent (anchorText w) u)))"
    using saveUuid_state(1)[OF assms(1)] assms(2) by (simp add: stored_def)
  then have "anchorText w'
      = fromUtf8 (textModeRead (textModeWrite w (toUtf8 (newAnchorContent (anchorText w) u))))"
    by (simp add: anchorText_def)
  also have "\<dots> = newAnchorContent (anchorText w) u"
    using newAnchorContent_readable[OF anchorText_wellFormed anchorText_no_CR assms(3,4)]
    by (intro read_back)
  finally show ?thesis .
qed

lemma hexdash_readable: "list_all isHexDash u \<Longrightarrow> wellFormed u \<and> 0x0D \<notin> set u"
  by (simp add: wellFormed_plain hexdash_plain hexdash_no_CR)

lemma saveUuid_existing:
  assumes "anchorFile w = Some ba" and "anchorReadable w" and "anchorWritable w" and "u \<noteq> []"
  shows "saveUuidToConfig w u =
    (True, w\<lparr>anchorFile := Some (stored (anchorWriteFault w)
                  (textModeWrite w (toUtf8 (newAnchorContent (anchorText w) u)))),
              fsLog := fsLog w
                  @ [WriteAnchor (textModeWrite w (toUtf8 (newAnchorContent (anchorText w) u)))]\<rparr>)"
  using assms by (simp add: saveUuidToConfig_def createAnchorIfMissing_def Let_def)

lemma saveUuid_ok_iff:
  "fst (saveUuidToConfig w u) \<longleftrightarrow>
    u \<noteq> [] \<and> (anchorFile w \<noteq> None \<or> testDirExists w \<or> mkpathOk w)
      \<and> anchorReadable w \<and> anchorWritable w"
proof -
  obtain ok w1 where c: "createAnchorIfMissing w = (ok, w1)"
    by (cases "createAnchorIfMissing w")
  have "fst (saveUuidToConfig w u) \<longleftrightarrow> u \<noteq> [] \<and> ok \<and> anchorReadable w1 \<and> anchorWritable w1"
    using c by (cases ok) (simp_all add: saveUuidToConfig_def Let_def)
  then show ?thesis
    using createAnchor_keeps(3,4,12)[OF c] by auto
qed

subsection \<open>What is cut\<close>

lemma isMarkerMatch_literal:
  assumes "list_all isHexDash g" and "g \<noteq> []" and "list_all isReSpace sp"
  shows "isMarkerMatch (markerLiteral @ g @ sp)"
proof -
  have "sp = [] \<or> \<not> isHexDash (hd sp)"
    using assms(3) isHexDash_not_space by (cases sp) auto
  then have "matchMarkerAt (markerLiteral @ g @ sp) = Some (g, sp)"
    using assms(1,2) by (intro matchMarkerAt_literal)
  then show ?thesis
    using assms(3) by (simp add: isMarkerMatch_def)
qed

lemma cutMarkers_removeMatches: "cutMarkers s (removeMatches s)"
proof (induction s rule: removeMatches.induct)
  case 1
  show ?case by (simp add: cut_nil)
next
  case (2 c cs)
  show ?case
  proof (cases "matchMarkerAt (c # cs)")
    case None
    then show ?thesis
      using "2.IH"(1) by (simp add: cut_keep)
  next
    case (Some r)
    obtain g rest where r: "r = (g, rest)" by (cases r)
    have m: "matchMarkerAt (c # cs) = Some (g, rest)"
      using Some r by simp
    then have s: "c # cs = markerLiteral @ g @ rest" and g: "list_all isHexDash g" "g \<noteq> []"
      by (simp_all add: matchMarkerAt_Some_iff)
    obtain sp where sp: "rest = sp @ dropWhile isReSpace rest" "list_all isReSpace sp"
      using dropWhile_space_split[of rest] by blast
    have ih: "cutMarkers (dropWhile isReSpace rest) (removeMatches (dropWhile isReSpace rest))"
      using "2.IH"(2)[OF m refl] .
    have "cutMarkers ((markerLiteral @ g @ sp) @ dropWhile isReSpace rest)
        (removeMatches (dropWhile isReSpace rest))"
      using isMarkerMatch_literal[OF g sp(2)] ih by (rule cut_match)
    moreover have "(markerLiteral @ g @ sp) @ dropWhile isReSpace rest = c # cs"
      using s sp(1) by simp
    ultimately show ?thesis
      using m by simp
  qed
qed

section \<open>Facts about the validator\<close>

lemma firstMacOf_filter:
  "firstMacOf ifs =
    (case filter (\<lambda>i. \<not> isLoopBack i \<and> hardwareAddress i \<noteq> []
                    \<and> hardwareAddress i \<noteq> QStringLiteral ''00:00:00:00:00:00'') ifs of
       [] \<Rightarrow> []
     | i # rest \<Rightarrow> hardwareAddress i)"
  by (induction ifs) (simp_all add: Let_def)

lemma resolve_firstMac:
  "getFirstMacAddress w = (case spec_resolveHardwareId w of None \<Rightarrow> [] | Some m \<Rightarrow> m)"
  by (simp add: getFirstMacAddress_def spec_resolveHardwareId_def firstMacOf_filter
      split: list.splits)

lemma resolve_nonempty: "spec_resolveHardwareId w = Some m \<Longrightarrow> m \<noteq> []"
proof -
  assume a: "spec_resolveHardwareId w = Some m"
  define good where "good = filter (\<lambda>i. \<not> isLoopBack i \<and> hardwareAddress i \<noteq> []
      \<and> hardwareAddress i \<noteq> QStringLiteral ''00:00:00:00:00:00'') (allInterfaces w)"
  from a obtain i rest where g: "good = i # rest" and m: "m = hardwareAddress i"
    by (auto simp: spec_resolveHardwareId_def good_def split: list.splits)
  have "i \<in> set good"
    using g by simp
  then have "hardwareAddress i \<noteq> []"
    by (simp add: good_def)
  then show ?thesis
    using m by simp
qed

lemma resolve_None_iff: "spec_resolveHardwareId w = None \<longleftrightarrow> getFirstMacAddress w = []"
  using resolve_firstMac[of w] resolve_nonempty[of w] by (cases "spec_resolveHardwareId w") auto

lemma deriveKey_code: "spec_deriveKey m = generateKeyFromMac m"
  by (simp add: spec_deriveKey_def staticSalt_def generateKeyFromMac_def QStringLiteral_def)

lemma fromJsonString_parse:
  "fromJsonString qt json = (case spec_parse qt json of None \<Rightarrow> defaultLicenseData | Some r \<Rightarrow> r)"
  by (simp add: fromJsonString_def spec_parse_def split: option.splits)

text \<open>
  What \<^verbatim>\<open>loadLicense\<close> returns: the record of step 1, and the default record when there
  is none.
\<close>

lemma loadLicense_spec:
  "loadLicense qt w = (case spec_loadBlob qt w of None \<Rightarrow> defaultLicenseData | Some r \<Rightarrow> r)"
proof (cases "licenseFile w")
  case None
  then show ?thesis
    by (simp add: loadLicense_def spec_loadBlob_def)
next
  case (Some ba)
  show ?thesis
  proof (cases "spec_resolveHardwareId w")
    case None
    then have "getFirstMacAddress w = []"
      by (simp add: resolve_None_iff)
    then show ?thesis
      using Some None by (simp add: loadLicense_def spec_loadBlob_def Let_def)
  next
    case (Some m)
    then have m: "getFirstMacAddress w = m" "m \<noteq> []"
      using resolve_firstMac[of w] resolve_nonempty[of w m] by simp_all
    show ?thesis
      using \<open>licenseFile w = Some ba\<close> Some m
      by (simp add: loadLicense_def spec_loadBlob_def Let_def deriveKey_code
          fromJsonString_parse xorDecrypt_Nil)
  qed
qed

lemma isEmpty_default: "isEmpty defaultLicenseData"
  by (simp add: isEmpty_def defaultLicenseData_def)

lemma machineHas_code:
  "systemHasMacAddress w m \<longleftrightarrow> m \<noteq> [] \<and> spec_machineHasHardwareId w m"
  by (simp add: systemHasMacAddress_def spec_machineHasHardwareId_def anyInterfaceHas_iff)

text \<open>
  What \<^verbatim>\<open>loadUuidFromConfig\<close> returns: the anchor value of step 3 when it is 36
  characters long and holds a dash, and the empty text otherwise.
\<close>

lemma loadUuid_spec:
  "loadUuidFromConfig w =
    (case spec_anchorValue w of
       None \<Rightarrow> []
     | Some v \<Rightarrow> if 0x2D \<in> set v \<and> length v = 36 then v else [])"
  by (simp add: loadUuidFromConfig_def spec_anchorValue_def Let_def split: option.splits)

lemma anchor_check_code:
  "(loadUuidFromConfig w = [] \<or> loadUuidFromConfig w \<noteq> u) \<longleftrightarrow>
    \<not> (spec_anchorValue w = Some u \<and> length u = 36 \<and> 0x2D \<in> set u)"
  by (auto simp: loadUuid_spec split: option.splits if_splits)

lemma expired_code: "isLicenseExpired w e \<longleftrightarrow> \<not> (case e of None \<Rightarrow> False | Some t \<Rightarrow> currentDateTime w < t)"
  by (simp add: isLicenseExpired_def split: option.splits) auto

lemma exit_valid: "hasValidLicense qt w \<longleftrightarrow> hasValidLicense_exit qt w = AllChecksPassed"
  by (simp add: hasValidLicense_def hasValidLicense_exit_def Let_def)

lemma exit_steps:
  "hasValidLicense_exit qt w =
    (case spec_loadBlob qt w of
       None \<Rightarrow> NoLicenseOrEmpty
     | Some r \<Rightarrow>
         if email r = [] then NoLicenseOrEmpty
         else if mac r = [] \<or> \<not> spec_machineHasHardwareId w (mac r) then MacCheckFailed
         else if \<not> (spec_anchorValue w = Some (uuid r) \<and> length (uuid r) = 36
                    \<and> 0x2D \<in> set (uuid r)) then UuidCheckFailed
         else if \<not> spec_notExpired w r then LicenseExpired
         else AllChecksPassed)"
proof (cases "spec_loadBlob qt w")
  case None
  then show ?thesis
    by (simp add: hasValidLicense_exit_def loadLicense_spec isEmpty_default)
next
  case (Some r)
  then have l: "loadLicense qt w = r"
    by (simp add: loadLicense_spec)
  show ?thesis
    unfolding hasValidLicense_exit_def l Let_def Some option.case
    by (simp only: anchor_check_code machineHas_code expired_code isEmpty_def
        spec_notExpired_def de_Morgan_conj not_not)
qed

subsection \<open>The sample machine under the specification's steps\<close>

lemma sample_resolve: "spec_resolveHardwareId sampleWorld = Some sampleMac"
  using resolve_firstMac[of sampleWorld] resolve_None_iff[of sampleWorld]
  by (cases "spec_resolveHardwareId sampleWorld") (simp_all add: sample_firstMac sampleMac_facts)

lemma sample_loadBlob:
  "spec_loadBlob (sampleLibrary obj) sampleWorld = spec_parse (sampleLibrary obj) [0x4A]"
proof -
  have enc: "fromUtf8 (textModeRead [0x43, 0x77, 0x3D, 0x3D]) = QStringLiteral ''Cw==''"
    by (simp add: textModeRead_def fromUtf8_def fromUtf8_step_def QStringLiteral_def)
  show ?thesis
    unfolding spec_loadBlob_def
    by (simp add: sample_blob enc sample_resolve deriveKey_code sample_decrypt
        sampleWorld_def[THEN arg_cong, of licenseReadable])
qed

lemma loadBlob_anchor: "spec_loadBlob qt (w\<lparr>anchorFile := a\<rparr>) = spec_loadBlob qt w"
proof -
  have "spec_resolveHardwareId (w\<lparr>anchorFile := a\<rparr>) = spec_resolveHardwareId w"
    by (simp add: spec_resolveHardwareId_def)
  then show ?thesis
    by (simp add: spec_loadBlob_def split: option.splits)
qed

lemma sample_parse:
  "spec_parse (sampleLibrary sampleObject) [0x4A] =
    Some \<lparr>email = QStringLiteral ''a@example.com'', mac = sampleMac, uuid = sampleUuid,
          issued = Some 1000, expires = Some 2000\<rparr>"
  "spec_parse (sampleLibrary shortIdObject) [0x4A] =
    Some \<lparr>email = QStringLiteral ''a@example.com'', mac = sampleMac,
          uuid = QStringLiteral ''abc'', issued = Some 1000, expires = Some 2000\<rparr>"
  "spec_parse (sampleLibrary noMacObject) [0x4A] =
    Some \<lparr>email = QStringLiteral ''a@example.com'', mac = [], uuid = sampleUuid,
          issued = Some 1000, expires = Some 2000\<rparr>"
  by (simp_all add: spec_parse_def sampleLibrary_def sampleObject_def shortIdObject_def
      noMacObject_def valueToString_def QStringLiteral_def)

lemma sample_machineHas: "spec_machineHasHardwareId sampleWorld sampleMac"
  "spec_machineHasHardwareId sampleWorld []"
  by (simp_all add: spec_machineHasHardwareId_def sampleWorld_def)

lemma machineHas_anchor:
  "spec_machineHasHardwareId (w\<lparr>anchorFile := a\<rparr>) m = spec_machineHasHardwareId w m"
  by (simp add: spec_machineHasHardwareId_def)

lemma sample_anchorValue: "spec_anchorValue sampleWorld = Some sampleUuid"
proof -
  have f: "anchorFile sampleWorld
      = Some (toUtf8 (uuidComment sampleUuid @ QStringLiteral ''project(test)''))"
    "anchorReadable sampleWorld"
    by (simp_all add: sampleWorld_def)
  have "firstCaptured (fromUtf8 (textModeRead
      (toUtf8 (uuidComment sampleUuid @ QStringLiteral ''project(test)'')))) = Some sampleUuid"
    using sample_firstCaptured by (simp add: anchorText_def f)
  then show ?thesis
    by (simp add: spec_anchorValue_def f trimmed_hexdash sampleUuid_hexdash)
qed

text \<open>An anchor file that holds the marker for the id \<^verbatim>\<open>abc\<close> and nothing else.\<close>

lemma short_anchorValue:
  "spec_anchorValue
      (sampleWorld\<lparr>anchorFile := Some (toUtf8 (markerLiteral @ QStringLiteral ''abc''))\<rparr>)
    = Some (QStringLiteral ''abc'')"
proof -
  define abc where "abc = QStringLiteral ''abc''"
  have hex: "list_all isHexDash abc" "abc \<noteq> []"
    by (simp_all add: abc_def QStringLiteral_def isHexDash_def)
  have "wellFormed (markerLiteral @ abc)" "0x0D \<notin> set (markerLiteral @ abc)"
    "\<forall>rest. markerLiteral @ abc \<noteq> 0xFEFF # rest"
    by (simp_all add: wellFormed_plain markerLiteral_def abc_def QStringLiteral_def
        isSurrogate_def)
  then have rd: "fromUtf8 (textModeRead (toUtf8 (markerLiteral @ abc))) = markerLiteral @ abc"
    by (rule read_plain)
  have "matchMarkerAt (markerLiteral @ abc @ []) = Some (abc, [])"
    using hex by (intro matchMarkerAt_literal) simp_all
  then have "firstCaptured (markerLiteral @ abc) = Some abc"
    by (simp add: firstCaptured_match)
  then show ?thesis
    unfolding abc_def[symmetric]
    by (simp add: spec_anchorValue_def rd trimmed_hexdash hex
        sampleWorld_def[THEN arg_cong, of anchorReadable])
qed

lemma sample_notExpired:
  "spec_notExpired sampleWorld \<lparr>email = e, mac = m, uuid = u, issued = i, expires = Some 2000\<rparr>"
  by (simp add: spec_notExpired_def sampleWorld_def)

lemma notExpired_anchor: "spec_notExpired (w\<lparr>anchorFile := a\<rparr>) r = spec_notExpired w r"
  by (simp add: spec_notExpired_def split: option.splits)

section \<open>Facts about activation\<close>

lemma xorEncrypt_empty_iff: "xorEncrypt data key = [] \<longleftrightarrow> key = [] \<or> data = []"
  by (simp add: xorEncrypt_def Let_def fromLatin1_empty_iff toBase64_empty_iff
      xorLoop_empty_iff toUtf8_empty_iff)

lemma createAnchor_log:
  assumes "createAnchorIfMissing w = (ok, w1)"
  shows "\<exists>pre. fsLog w1 = fsLog w @ pre \<and> set pre \<subseteq> {MakeTestDir, CreateAnchor}"
proof -
  have "fsLog w1 = fsLog w @ [] \<or> fsLog w1 = fsLog w @ [MakeTestDir]
      \<or> fsLog w1 = fsLog w @ [CreateAnchor] \<or> fsLog w1 = fsLog w @ [MakeTestDir, CreateAnchor]"
    using assms by (auto simp: createAnchorIfMissing_def Let_def split: if_splits)
  then consider "fsLog w1 = fsLog w @ []" | "fsLog w1 = fsLog w @ [MakeTestDir]"
    | "fsLog w1 = fsLog w @ [CreateAnchor]" | "fsLog w1 = fsLog w @ [MakeTestDir, CreateAnchor]"
    by blast
  then show ?thesis
  proof cases
    case 1
    then show ?thesis by (intro exI[of _ "[]"]) simp
  next
    case 2
    then show ?thesis by (intro exI[of _ "[MakeTestDir]"]) simp
  next
    case 3
    then show ?thesis by (intro exI[of _ "[CreateAnchor]"]) simp
  next
    case 4
    then show ?thesis by (intro exI[of _ "[MakeTestDir, CreateAnchor]"]) simp
  qed
qed

text \<open>
  The anchor write in full: when it succeeds, and what it leaves in the log and in the
  files.
\<close>

lemma saveUuid_result:
  assumes "saveUuidToConfig w u = (ok, w')"
  shows "\<exists>pre. set pre \<subseteq> {MakeTestDir, CreateAnchor}
    \<and> licenseFile w' = licenseFile w
    \<and> (ok \<longrightarrow> fsLog w' = fsLog w @ pre
            @ [WriteAnchor (textModeWrite w (toUtf8 (newAnchorContent (anchorText w) u)))]
          \<and> anchorFile w' = Some (stored (anchorWriteFault w)
                (textModeWrite w (toUtf8 (newAnchorContent (anchorText w) u)))))
    \<and> (\<not> ok \<longrightarrow> fsLog w' = fsLog w @ pre)"
proof (cases "u = []")
  case True
  then have "w' = w" and "\<not> ok"
    using assms by (simp_all add: saveUuidToConfig_def)
  then show ?thesis by (intro exI[of _ "[]"]) simp
next
  case False
  obtain ok1 w1 where c: "createAnchorIfMissing w = (ok1, w1)"
    by (cases "createAnchorIfMissing w")
  from createAnchor_log[OF c] obtain pre where pre: "fsLog w1 = fsLog w @ pre"
    "set pre \<subseteq> {MakeTestDir, CreateAnchor}"
    by (elim exE conjE)
  have lf: "licenseFile w1 = licenseFile w"
    using c by (rule createAnchor_keeps(2))
  show ?thesis
  proof (cases ok)
    case True
    have su: "saveUuidToConfig w u = (True, w')"
      using assms True by simp
    from saveUuid_success[OF su] obtain w0
      where c0: "createAnchorIfMissing w = (True, w0)"
        and w': "w' = w0\<lparr>anchorFile := Some (stored (anchorWriteFault w)
                  (textModeWrite w (toUtf8 (newAnchorContent (anchorText w) u)))),
               fsLog := fsLog w0
                  @ [WriteAnchor (textModeWrite w (toUtf8 (newAnchorContent (anchorText w) u)))]\<rparr>"
      by (elim exE conjE)
    have "w0 = w1"
      using c c0 by simp
    then show ?thesis
      using True w' pre lf by (intro exI[of _ pre]) simp
  next
    case no: False
    then have "w' = w1"
      using assms False c
      by (cases ok1) (auto simp: saveUuidToConfig_def Let_def split: if_splits)
    then show ?thesis
      using no pre lf by (intro exI[of _ pre]) simp
  qed
qed

lemma saveUuid_frame:
  "anchorFile (w\<lparr>licenseFile := lf, fsLog := lg\<rparr>) = anchorFile w"
  "anchorText (w\<lparr>licenseFile := lf, fsLog := lg\<rparr>) = anchorText w"
  "textModeWrite (w\<lparr>licenseFile := lf, fsLog := lg\<rparr>) = textModeWrite w"
  "anchorText (w\<lparr>uuidSource := us\<rparr>) = anchorText w"
  "textModeWrite (w\<lparr>uuidSource := us\<rparr>) = textModeWrite w"
  by (simp_all add: anchorText_def textModeWrite_def fun_eq_iff)

text \<open>The blob write followed by the anchor write.\<close>

lemma saveLicense_result:
  assumes "saveLicense qt w license = (ok, w')"
  shows "(ok \<longleftrightarrow> email license \<noteq> []
        \<and> xorEncrypt (toJsonString qt license) (generateKeyFromMac (mac license)) \<noteq> []
        \<and> licenseWritable w \<and> uuid license \<noteq> []
        \<and> (anchorFile w \<noteq> None \<or> testDirExists w \<or> mkpathOk w)
        \<and> anchorReadable w \<and> anchorWritable w)"
    and "\<not> (email license \<noteq> []
        \<and> xorEncrypt (toJsonString qt license) (generateKeyFromMac (mac license)) \<noteq> []
        \<and> licenseWritable w) \<longrightarrow> \<not> ok \<and> w' = w"
    and "email license \<noteq> []
        \<and> xorEncrypt (toJsonString qt license) (generateKeyFromMac (mac license)) \<noteq> []
        \<and> licenseWritable w
      \<longrightarrow> (\<exists>pre. set pre \<subseteq> {MakeTestDir, CreateAnchor}
          \<and> licenseFile w' = Some (stored (licenseWriteFault w)
              (textModeWrite w (toUtf8
                (xorEncrypt (toJsonString qt license) (generateKeyFromMac (mac license))))))
          \<and> (ok \<longrightarrow> fsLog w' = fsLog w
                @ WriteLicense (textModeWrite w (toUtf8
                    (xorEncrypt (toJsonString qt license) (generateKeyFromMac (mac license)))))
                # pre
                @ [WriteAnchor (textModeWrite w (toUtf8
                    (newAnchorContent (anchorText w) (uuid license))))]
              \<and> anchorFile w' = Some (stored (anchorWriteFault w)
                    (textModeWrite w (toUtf8
                      (newAnchorContent (anchorText w) (uuid license))))))
          \<and> (\<not> ok \<longrightarrow> fsLog w' = fsLog w
                @ WriteLicense (textModeWrite w (toUtf8
                    (xorEncrypt (toJsonString qt license) (generateKeyFromMac (mac license)))))
                # pre))"
proof -
  define enc where
    "enc = xorEncrypt (toJsonString qt license) (generateKeyFromMac (mac license))"
  define lb where "lb = textModeWrite w (toUtf8 enc)"
  define w2 where "w2 = w\<lparr>licenseFile := Some (stored (licenseWriteFault w) lb),
      fsLog := fsLog w @ [WriteLicense lb]\<rparr>"
  show "\<not> (email license \<noteq> []
        \<and> xorEncrypt (toJsonString qt license) (generateKeyFromMac (mac license)) \<noteq> []
        \<and> licenseWritable w) \<longrightarrow> \<not> ok \<and> w' = w"
    using assms by (auto simp: saveLicense_def Let_def isEmpty_def split: if_splits)
  show "(ok \<longleftrightarrow> email license \<noteq> []
        \<and> xorEncrypt (toJsonString qt license) (generateKeyFromMac (mac license)) \<noteq> []
        \<and> licenseWritable w \<and> uuid license \<noteq> []
        \<and> (anchorFile w \<noteq> None \<or> testDirExists w \<or> mkpathOk w)
        \<and> anchorReadable w \<and> anchorWritable w)"
  proof (cases "email license \<noteq> [] \<and> enc \<noteq> [] \<and> licenseWritable w")
    case True
    then have "saveUuidToConfig w2 (uuid license) = (ok, w')"
      using assms by (simp add: saveLicense_def Let_def isEmpty_def enc_def lb_def w2_def)
    then have "ok = fst (saveUuidToConfig w2 (uuid license))"
      by simp
    then show ?thesis
      using True by (simp add: saveUuid_ok_iff w2_def enc_def)
  next
    case False
    then have "\<not> ok"
      using assms by (auto simp: saveLicense_def Let_def isEmpty_def enc_def split: if_splits)
    then show ?thesis
      using False by (auto simp: enc_def)
  qed
  show "email license \<noteq> []
        \<and> xorEncrypt (toJsonString qt license) (generateKeyFromMac (mac license)) \<noteq> []
        \<and> licenseWritable w
      \<longrightarrow> (\<exists>pre. set pre \<subseteq> {MakeTestDir, CreateAnchor}
          \<and> licenseFile w' = Some (stored (licenseWriteFault w)
              (textModeWrite w (toUtf8
                (xorEncrypt (toJsonString qt license) (generateKeyFromMac (mac license))))))
          \<and> (ok \<longrightarrow> fsLog w' = fsLog w
                @ WriteLicense (textModeWrite w (toUtf8
                    (xorEncrypt (toJsonString qt license) (generateKeyFromMac (mac license)))))
                # pre
                @ [WriteAnchor (textModeWrite w (toUtf8
                    (newAnchorContent (anchorText w) (uuid license))))]
              \<and> anchorFile w' = Some (stored (anchorWriteFault w)
                    (textModeWrite w (toUtf8
                      (newAnchorContent (anchorText w) (uuid license))))))
          \<and> (\<not> ok \<longrightarrow> fsLog w' = fsLog w
                @ WriteLicense (textModeWrite w (toUtf8
                    (xorEncrypt (toJsonString qt license) (generateKeyFromMac (mac license)))))
                # pre))"
  proof (cases "email license \<noteq> [] \<and> enc \<noteq> [] \<and> licenseWritable w")
    case False
    then show ?thesis
      unfolding enc_def by blast
  next
    case True
    then have su: "saveUuidToConfig w2 (uuid license) = (ok, w')"
      using assms by (simp add: saveLicense_def Let_def isEmpty_def enc_def lb_def w2_def)
    from saveUuid_result[OF su] obtain pre where pre: "set pre \<subseteq> {MakeTestDir, CreateAnchor}"
      and lf: "licenseFile w' = licenseFile w2"
      and good: "ok \<longrightarrow> fsLog w' = fsLog w2 @ pre
            @ [WriteAnchor (textModeWrite w2 (toUtf8 (newAnchorContent (anchorText w2) (uuid license))))]
          \<and> anchorFile w' = Some (stored (anchorWriteFault w2)
                (textModeWrite w2 (toUtf8 (newAnchorContent (anchorText w2) (uuid license)))))"
      and bad: "\<not> ok \<longrightarrow> fsLog w' = fsLog w2 @ pre"
      by (elim exE conjE)
    have fr: "anchorText w2 = anchorText w" "textModeWrite w2 = textModeWrite w"
      "anchorWriteFault w2 = anchorWriteFault w" "fsLog w2 = fsLog w @ [WriteLicense lb]"
      "licenseFile w2 = Some (stored (licenseWriteFault w) lb)"
      by (simp_all add: w2_def saveUuid_frame)
    have "set pre \<subseteq> {MakeTestDir, CreateAnchor}
          \<and> licenseFile w' = Some (stored (licenseWriteFault w) lb)
          \<and> (ok \<longrightarrow> fsLog w' = fsLog w @ WriteLicense lb # pre
                @ [WriteAnchor (textModeWrite w (toUtf8
                    (newAnchorContent (anchorText w) (uuid license))))]
              \<and> anchorFile w' = Some (stored (anchorWriteFault w)
                    (textModeWrite w (toUtf8
                      (newAnchorContent (anchorText w) (uuid license))))))
          \<and> (\<not> ok \<longrightarrow> fsLog w' = fsLog w @ WriteLicense lb # pre)"
      using pre lf good bad by (simp add: fr)
    then show ?thesis
      unfolding lb_def enc_def by blast
  qed
qed

lemma generateUuid_cases:
  "generateUuid w = (u, w1) \<longleftrightarrow>
    (uuidSource w = [] \<and> u = [] \<and> w1 = w)
    \<or> (\<exists>rest. uuidSource w = u # rest \<and> w1 = w\<lparr>uuidSource := rest\<rparr>)"
  by (auto simp: generateUuid_def split: list.splits)

text \<open>
  Activation in full: when it returns true, and what it leaves in the log and in the two
  files.
\<close>

lemma activate_steps:
  assumes "activateNewLicense qt w emailStr = (ok, w')"
  shows "(ok \<longleftrightarrow>
        ((\<exists>hw u rest. spec_resolveHardwareId w = Some hw \<and> uuidSource w = u # rest \<and> u \<noteq> []
          \<and> trimmed emailStr \<noteq> []
          \<and> spec_blob qt (spec_newRecord qt emailStr hw u (currentDateTime w)) \<noteq> [])
         \<and> licenseWritable w)
        \<and> (anchorFile w \<noteq> None \<or> testDirExists w \<or> mkpathOk w)
        \<and> anchorReadable w \<and> anchorWritable w)
    \<and> (ok \<longrightarrow>
        (\<exists>hw u rest pre. spec_resolveHardwareId w = Some hw \<and> uuidSource w = u # rest
          \<and> set pre \<subseteq> {MakeTestDir, CreateAnchor}
          \<and> fsLog w' = fsLog w
              @ WriteLicense (textModeWrite w (toUtf8
                  (spec_blob qt (spec_newRecord qt emailStr hw u (currentDateTime w)))))
              # pre
              @ [WriteAnchor (textModeWrite w (toUtf8 (newAnchorContent (anchorText w) u)))]
          \<and> licenseFile w' = Some (stored (licenseWriteFault w)
                (textModeWrite w (toUtf8
                  (spec_blob qt (spec_newRecord qt emailStr hw u (currentDateTime w))))))
          \<and> anchorFile w' = Some (stored (anchorWriteFault w)
                (textModeWrite w (toUtf8 (newAnchorContent (anchorText w) u))))))
    \<and> (\<not> ((\<exists>hw u rest. spec_resolveHardwareId w = Some hw \<and> uuidSource w = u # rest \<and> u \<noteq> []
            \<and> trimmed emailStr \<noteq> []
            \<and> spec_blob qt (spec_newRecord qt emailStr hw u (currentDateTime w)) \<noteq> [])
           \<and> licenseWritable w)
        \<longrightarrow> fsLog w' = fsLog w \<and> licenseFile w' = licenseFile w
          \<and> anchorFile w' = anchorFile w \<and> testDirExists w' = testDirExists w)
    \<and> (\<not> ok \<and> licenseWritable w
        \<longrightarrow> (\<forall>hw u rest. spec_resolveHardwareId w = Some hw \<and> uuidSource w = u # rest \<and> u \<noteq> []
              \<and> trimmed emailStr \<noteq> []
              \<and> spec_blob qt (spec_newRecord qt emailStr hw u (currentDateTime w)) \<noteq> []
            \<longrightarrow> (\<exists>pre. set pre \<subseteq> {MakeTestDir, CreateAnchor}
                  \<and> fsLog w' = fsLog w
                      @ WriteLicense (textModeWrite w (toUtf8
                          (spec_blob qt (spec_newRecord qt emailStr hw u (currentDateTime w)))))
                      # pre
                  \<and> licenseFile w' = Some (stored (licenseWriteFault w)
                        (textModeWrite w (toUtf8
                          (spec_blob qt
                            (spec_newRecord qt emailStr hw u (currentDateTime w)))))))))"
proof (cases "spec_resolveHardwareId w")
  case None
  then have "getFirstMacAddress w = []"
    by (simp add: resolve_None_iff)
  then have "\<not> ok" and "w' = w"
    using assms by (simp_all add: activateNewLicense_def)
  then show ?thesis
    using None by simp
next
  case (Some hw)
  then have hw: "getFirstMacAddress w = hw" "hw \<noteq> []"
    using resolve_firstMac[of w] resolve_nonempty[of w hw] by simp_all
  show ?thesis
  proof (cases "uuidSource w")
    case Nil
    then have "generateUuid w = ([], w)"
      by (simp add: generateUuid_def)
    then have "\<not> ok" and "w' = w"
      using assms hw by (simp_all add: activateNewLicense_def)
    then show ?thesis
      using Nil by simp
  next
    case (Cons u rest)
    define w1 where "w1 = w\<lparr>uuidSource := rest\<rparr>"
    have g: "generateUuid w = (u, w1)"
      by (simp add: generateUuid_def Cons w1_def)
    have k: "fsLog w1 = fsLog w" "licenseFile w1 = licenseFile w" "anchorFile w1 = anchorFile w"
      "testDirExists w1 = testDirExists w" "mkpathOk w1 = mkpathOk w"
      "licenseWritable w1 = licenseWritable w" "anchorReadable w1 = anchorReadable w"
      "anchorWritable w1 = anchorWritable w" "licenseWriteFault w1 = licenseWriteFault w"
      "anchorWriteFault w1 = anchorWriteFault w" "currentDateTime w1 = currentDateTime w"
      "anchorText w1 = anchorText w" "textModeWrite w1 = textModeWrite w"
      by (simp_all add: w1_def saveUuid_frame)
    show ?thesis
    proof (cases "u = []")
      case True
      then have "\<not> ok" and "w' = w1"
        using assms hw g by (simp_all add: activateNewLicense_def)
      then show ?thesis
        using True Cons k by simp
    next
      case nonempty: False
      define license where "license = spec_newRecord qt emailStr hw u (currentDateTime w)"
      define reached where "reached \<longleftrightarrow>
        trimmed emailStr \<noteq> [] \<and> spec_blob qt license \<noteq> [] \<and> licenseWritable w"
      have fields: "email license = trimmed emailStr" "mac license = hw" "uuid license = u"
        by (simp_all add: license_def spec_newRecord_def)
      have blob: "xorEncrypt (toJsonString qt license) (generateKeyFromMac hw)
          = spec_blob qt license"
        by (simp add: spec_blob_def deriveKey_code fields)
      have sl: "saveLicense qt w1 license = (ok, w')"
        using assms hw g nonempty
        by (simp add: activateNewLicense_def Let_def license_def spec_newRecord_def k)
      note res = saveLicense_result[OF sl, unfolded fields blob k, folded reached_def]
      have A: "((\<exists>hw u rest. spec_resolveHardwareId w = Some hw \<and> uuidSource w = u # rest
            \<and> u \<noteq> [] \<and> trimmed emailStr \<noteq> []
            \<and> spec_blob qt (spec_newRecord qt emailStr hw u (currentDateTime w)) \<noteq> [])
           \<and> licenseWritable w) \<longleftrightarrow> reached"
        using Some Cons nonempty by (auto simp: reached_def license_def)
      have one: "ok \<longleftrightarrow> reached
          \<and> (anchorFile w \<noteq> None \<or> testDirExists w \<or> mkpathOk w)
          \<and> anchorReadable w \<and> anchorWritable w"
        using res(1) nonempty by (auto simp: reached_def)
      have three: "\<not> reached \<longrightarrow> fsLog w' = fsLog w \<and> licenseFile w' = licenseFile w
          \<and> anchorFile w' = anchorFile w \<and> testDirExists w' = testDirExists w"
        using res(2) k by auto
      have written: "reached \<longrightarrow> (\<exists>pre. set pre \<subseteq> {MakeTestDir, CreateAnchor}
          \<and> licenseFile w' = Some (stored (licenseWriteFault w)
              (textModeWrite w (toUtf8 (spec_blob qt license))))
          \<and> (ok \<longrightarrow> fsLog w' = fsLog w
                @ WriteLicense (textModeWrite w (toUtf8 (spec_blob qt license))) # pre
                @ [WriteAnchor (textModeWrite w (toUtf8 (newAnchorContent (anchorText w) u)))]
              \<and> anchorFile w' = Some (stored (anchorWriteFault w)
                    (textModeWrite w (toUtf8 (newAnchorContent (anchorText w) u)))))
          \<and> (\<not> ok \<longrightarrow> fsLog w' = fsLog w
                @ WriteLicense (textModeWrite w (toUtf8 (spec_blob qt license))) # pre))"
        using res(3) .
      have two: "ok \<longrightarrow>
          (\<exists>hw u rest pre. spec_resolveHardwareId w = Some hw \<and> uuidSource w = u # rest
            \<and> set pre \<subseteq> {MakeTestDir, CreateAnchor}
            \<and> fsLog w' = fsLog w
                @ WriteLicense (textModeWrite w (toUtf8
                    (spec_blob qt (spec_newRecord qt emailStr hw u (currentDateTime w)))))
                # pre
                @ [WriteAnchor (textModeWrite w (toUtf8 (newAnchorContent (anchorText w) u)))]
            \<and> licenseFile w' = Some (stored (licenseWriteFault w)
                  (textModeWrite w (toUtf8
                    (spec_blob qt (spec_newRecord qt emailStr hw u (currentDateTime w))))))
            \<and> anchorFile w' = Some (stored (anchorWriteFault w)
                  (textModeWrite w (toUtf8 (newAnchorContent (anchorText w) u)))))"
      proof
        assume ok
        then have reached using one by blast
        with written \<open>ok\<close> obtain pre where "set pre \<subseteq> {MakeTestDir, CreateAnchor}"
          "licenseFile w' = Some (stored (licenseWriteFault w)
              (textModeWrite w (toUtf8 (spec_blob qt license))))"
          "fsLog w' = fsLog w
                @ WriteLicense (textModeWrite w (toUtf8 (spec_blob qt license))) # pre
                @ [WriteAnchor (textModeWrite w (toUtf8 (newAnchorContent (anchorText w) u)))]"
          "anchorFile w' = Some (stored (anchorWriteFault w)
                    (textModeWrite w (toUtf8 (newAnchorContent (anchorText w) u))))"
          by blast
        then show "\<exists>hw u rest pre. spec_resolveHardwareId w = Some hw \<and> uuidSource w = u # rest
            \<and> set pre \<subseteq> {MakeTestDir, CreateAnchor}
            \<and> fsLog w' = fsLog w
                @ WriteLicense (textModeWrite w (toUtf8
                    (spec_blob qt (spec_newRecord qt emailStr hw u (currentDateTime w)))))
                # pre
                @ [WriteAnchor (textModeWrite w (toUtf8 (newAnchorContent (anchorText w) u)))]
            \<and> licenseFile w' = Some (stored (licenseWriteFault w)
                  (textModeWrite w (toUtf8
                    (spec_blob qt (spec_newRecord qt emailStr hw u (currentDateTime w))))))
            \<and> anchorFile w' = Some (stored (anchorWriteFault w)
                  (textModeWrite w (toUtf8 (newAnchorContent (anchorText w) u))))"
          using Some Cons unfolding license_def by blast
      qed
      have four: "\<not> ok \<and> licenseWritable w
        \<longrightarrow> (\<forall>hw u rest. spec_resolveHardwareId w = Some hw \<and> uuidSource w = u # rest \<and> u \<noteq> []
              \<and> trimmed emailStr \<noteq> []
              \<and> spec_blob qt (spec_newRecord qt emailStr hw u (currentDateTime w)) \<noteq> []
            \<longrightarrow> (\<exists>pre. set pre \<subseteq> {MakeTestDir, CreateAnchor}
                  \<and> fsLog w' = fsLog w
                      @ WriteLicense (textModeWrite w (toUtf8
                          (spec_blob qt (spec_newRecord qt emailStr hw u (currentDateTime w)))))
                      # pre
                  \<and> licenseFile w' = Some (stored (licenseWriteFault w)
                        (textModeWrite w (toUtf8
                          (spec_blob qt
                            (spec_newRecord qt emailStr hw u (currentDateTime w))))))))"
      proof (intro impI allI)
        fix hw' u' rest'
        assume n: "\<not> ok \<and> licenseWritable w"
          and h: "spec_resolveHardwareId w = Some hw' \<and> uuidSource w = u' # rest' \<and> u' \<noteq> []
              \<and> trimmed emailStr \<noteq> []
              \<and> spec_blob qt (spec_newRecord qt emailStr hw' u' (currentDateTime w)) \<noteq> []"
        have e: "hw' = hw" "u' = u"
          using h Some Cons by simp_all
        have reached
          using n h e by (simp add: reached_def license_def)
        with written n obtain pre where "set pre \<subseteq> {MakeTestDir, CreateAnchor}"
          "licenseFile w' = Some (stored (licenseWriteFault w)
              (textModeWrite w (toUtf8 (spec_blob qt license))))"
          "fsLog w' = fsLog w
                @ WriteLicense (textModeWrite w (toUtf8 (spec_blob qt license))) # pre"
          by blast
        then show "\<exists>pre. set pre \<subseteq> {MakeTestDir, CreateAnchor}
                  \<and> fsLog w' = fsLog w
                      @ WriteLicense (textModeWrite w (toUtf8
                          (spec_blob qt (spec_newRecord qt emailStr hw' u' (currentDateTime w)))))
                      # pre
                  \<and> licenseFile w' = Some (stored (licenseWriteFault w)
                        (textModeWrite w (toUtf8
                          (spec_blob qt
                            (spec_newRecord qt emailStr hw' u' (currentDateTime w))))))"
          unfolding e license_def by blast
      qed
      show ?thesis
        unfolding A using one two three four by blast
    qed
  qed
qed

section \<open>Claims about the codec\<close>

text \<open>
  C3, as the specification states it: for every non-empty plaintext \<open>p\<close> and every
  non-empty key \<open>k\<close>, decoding the encoding of \<open>p\<close> under \<open>k\<close> gives \<open>p\<close> back.
  This fails for a plaintext that starts with the code unit U+FEFF: its UTF-8 form starts
  with \<^verbatim>\<open>EF BB BF\<close>, which \<^verbatim>\<open>QString::fromUtf8\<close> in \<^verbatim>\<open>xorDecrypt\<close> drops as a byte-order
  mark. (A plaintext with an unpaired surrogate is not restored either.)
\<close>

theorem xor_roundtrip_counterexample:
  "\<not> (\<forall>p k. p \<noteq> [] \<and> k \<noteq> [] \<longrightarrow> xorDecrypt (xorEncrypt p k) k = p)"
proof
  assume all: "\<forall>p k. p \<noteq> [] \<and> k \<noteq> [] \<longrightarrow> xorDecrypt (xorEncrypt p k) k = p"
  have "xorDecrypt (xorEncrypt [0xFEFF, 0x61] [0x6B]) [0x6B] = fromUtf8 (toUtf8 [0xFEFF, 0x61])"
    by (rule xorDecrypt_xorEncrypt) simp_all
  also have "\<dots> = [0x61]"
    by (simp add: isSurrogate_def fromUtf8_def fromUtf8_step_def)
  finally have "xorDecrypt (xorEncrypt [0xFEFF, 0x61] [0x6B]) [0x6B] = [0x61]" .
  moreover have "xorDecrypt (xorEncrypt [0xFEFF, 0x61] [0x6B]) [0x6B] = [0xFEFF, 0x61]"
    using all by blast
  ultimately show False by simp
qed

text \<open>
  C3, amended: for every non-empty plaintext \<open>p\<close> and every non-empty key \<open>k\<close>, decoding
  the encoding of \<open>p\<close> under \<open>k\<close> gives \<open>p\<close> back exactly when \<open>p\<close> survives the trip
  through UTF-8 alone (\<open>fromUtf8 (toUtf8 p) = p\<close>); every text of 7-bit characters does, so
  for those the round trip always holds. A text survives that trip exactly when every
  surrogate in it is paired and it does not start with U+FEFF.
\<close>

theorem xor_roundtrip:
  assumes "p \<noteq> []" and "k \<noteq> []"
  shows "(xorDecrypt (xorEncrypt p k) k = p \<longleftrightarrow> fromUtf8 (toUtf8 p) = p)
    \<and> (list_all (\<lambda>c. c < 0x80) p \<longrightarrow> xorDecrypt (xorEncrypt p k) k = p)
    \<and> (xorDecrypt (xorEncrypt p k) k = p \<longleftrightarrow>
          wellFormed p \<and> (\<forall>rest. p \<noteq> 0xFEFF # rest))"
  using assms by (simp add: xorDecrypt_xorEncrypt fromUtf8_toUtf8_ascii fromUtf8_toUtf8_iff)

theorem xor_roundtrip_witness:
  "QStringLiteral ''license'' \<noteq> [] \<and> generateKeyFromMac (QStringLiteral ''AA:BB:CC:DD:EE:FF'') \<noteq> []
    \<and> list_all (\<lambda>c. c < 0x80) (QStringLiteral ''license'')
    \<and> xorDecrypt
         (xorEncrypt (QStringLiteral ''license'')
            (generateKeyFromMac (QStringLiteral ''AA:BB:CC:DD:EE:FF'')))
         (generateKeyFromMac (QStringLiteral ''AA:BB:CC:DD:EE:FF''))
       = QStringLiteral ''license''"
proof -
  have p: "QStringLiteral ''license'' \<noteq> []"
    by (simp add: QStringLiteral_def)
  have k: "generateKeyFromMac (QStringLiteral ''AA:BB:CC:DD:EE:FF'') \<noteq> []"
    by (simp add: generateKeyFromMac_def QStringLiteral_def)
  have a: "list_all (\<lambda>c. c < 0x80) (QStringLiteral ''license'')"
    by (simp add: QStringLiteral_def)
  show ?thesis
    using xor_roundtrip[OF p k] p k a by simp
qed

text \<open>
  C4, as the specification states it: \<open>encode\<close> and \<open>decode\<close> return an empty result on
  any failure, for \<open>decode\<close> in particular on an input that is not base64. A text is
  malformed here when it is the base64 encoding of no byte array. The text \<^verbatim>\<open>QUJD!\<close>
  is malformed, yet \<^verbatim>\<open>xorDecrypt\<close> skips the \<^verbatim>\<open>!\<close>, decodes the three bytes
  \<^verbatim>\<open>ABC\<close> and, under the key \<^verbatim>\<open>0\<close>, returns \<^verbatim>\<open>qrs\<close>.
\<close>

theorem decode_malformed_counterexample:
  "\<not> (\<forall>text key. (\<forall>ba. text \<noteq> fromLatin1 (toBase64 ba)) \<longrightarrow> xorDecrypt text key = [])"
proof
  assume all: "\<forall>text key. (\<forall>ba. text \<noteq> fromLatin1 (toBase64 ba)) \<longrightarrow> xorDecrypt text key = []"
  have "QStringLiteral ''QUJD!'' \<noteq> fromLatin1 (toBase64 ba)" for ba
  proof
    assume "QStringLiteral ''QUJD!'' = fromLatin1 (toBase64 ba)"
    then have "length (QStringLiteral ''QUJD!'') = length (toBase64 ba)"
      by (simp add: fromLatin1_def)
    then have "length (QStringLiteral ''QUJD!'') mod 4 = 0"
      by (simp only: length_toBase64)
    then show False by (simp add: QStringLiteral_def)
  qed
  then have "xorDecrypt (QStringLiteral ''QUJD!'') (QStringLiteral ''0'') = []"
    using all by blast
  moreover have "xorDecrypt (QStringLiteral ''QUJD!'') (QStringLiteral ''0'') = QStringLiteral ''qrs''"
    by code_simp
  ultimately show False by (simp add: QStringLiteral_def)
qed

text \<open>
  C4, amended: \<open>encode\<close> and \<open>decode\<close> are total and signal no error. Each returns the
  empty text when the key is empty; \<open>encode\<close> returns it for the empty plaintext, and
  \<open>decode\<close> for a text without any character of the base64 alphabet. Malformed input is
  not rejected otherwise: \<open>decode\<close> gives the same result as on the text with every
  character outside the alphabet left out.
\<close>

theorem codec_empty_results:
  "xorEncrypt data [] = [] \<and> xorDecrypt text [] = [] \<and> xorEncrypt [] key = []
    \<and> (list_all (\<lambda>c. \<not> inBase64Alphabet c) text \<longrightarrow> xorDecrypt text key = [])
    \<and> xorDecrypt text key = xorDecrypt (filter inBase64Alphabet text) key"
proof -
  have skip: "fromBase64 (toLatin1 (filter inBase64Alphabet text)) = fromBase64 (toLatin1 text)"
    by (simp only: fromBase64_def toLatin1_filter fromBase64_helper_skips)
  have none: "fromBase64 (toLatin1 text) = []" if "list_all (\<lambda>c. \<not> inBase64Alphabet c) text"
  proof -
    from that have "filter inBase64Alphabet text = []"
      by (simp add: list_all_iff filter_empty_conv)
    with skip show ?thesis by (simp add: toLatin1_def fromBase64_def)
  qed
  have enc: "xorEncrypt [] key = []"
    by (simp add: xorEncrypt_def fromLatin1_def Let_def toBase64_empty_iff xorLoop_empty_iff)
  show ?thesis
    using none enc by (simp add: xorEncrypt_def xorDecrypt_def skip)
qed

theorem codec_empty_results_witness:
  "list_all (\<lambda>c. \<not> inBase64Alphabet c) (QStringLiteral ''!?='')
    \<and> xorDecrypt (QStringLiteral ''!?='') (QStringLiteral ''0'') = []"
proof -
  have a: "list_all (\<lambda>c. \<not> inBase64Alphabet c) (QStringLiteral ''!?='')"
    by (simp add: QStringLiteral_def inBase64Alphabet_def base64_digit_def)
  show ?thesis
    using codec_empty_results[of _ "QStringLiteral ''!?=''" "QStringLiteral ''0''"] a by simp
qed

section \<open>Claims about the validator\<close>

text \<open>
  C1, as the specification states it: the validator checks, in this order, that (1) the
  blob decodes, with the key derived from the hardware id of the current machine, to a
  parseable record that is not empty, (2) some interface reports the record's hardware
  id, (3) the anchor value is present and equal to the record's activation id, and (4)
  the record expires later than now; the first check that fails gives the outcome, and
  the license is valid when none does. This is \<open>spec_firstFailing\<close>. The code differs
  in two places. For a record whose activation id is \<^verbatim>\<open>abc\<close> and an anchor file that
  holds \<^verbatim>\<open># PAYWALL_UUID: abc\<close>, all four checks of the specification pass, but
  \<^verbatim>\<open>loadUuidFromConfig\<close> accepts only an anchor value of 36 characters with a dash, and
  the license is invalid at the anchor check. And for a record with an email but no
  hardware id, which the specification calls empty, the code fails at the hardware check,
  not at the first.
\<close>

theorem validator_counterexample:
  "spec_isLicenseValid (sampleLibrary shortIdObject)
      (sampleWorld\<lparr>anchorFile := Some (toUtf8 (markerLiteral @ QStringLiteral ''abc''))\<rparr>)
  \<and> spec_firstFailing (sampleLibrary shortIdObject)
      (sampleWorld\<lparr>anchorFile := Some (toUtf8 (markerLiteral @ QStringLiteral ''abc''))\<rparr>)
    = AllChecksPassed
  \<and> hasValidLicense_exit (sampleLibrary shortIdObject)
      (sampleWorld\<lparr>anchorFile := Some (toUtf8 (markerLiteral @ QStringLiteral ''abc''))\<rparr>)
    = UuidCheckFailed
  \<and> \<not> hasValidLicense (sampleLibrary shortIdObject)
      (sampleWorld\<lparr>anchorFile := Some (toUtf8 (markerLiteral @ QStringLiteral ''abc''))\<rparr>)
  \<and> spec_firstFailing (sampleLibrary noMacObject) sampleWorld = NoLicenseOrEmpty
  \<and> hasValidLicense_exit (sampleLibrary noMacObject) sampleWorld = MacCheckFailed"
proof -
  define w where
    "w = sampleWorld\<lparr>anchorFile := Some (toUtf8 (markerLiteral @ QStringLiteral ''abc''))\<rparr>"
  have b: "spec_loadBlob (sampleLibrary shortIdObject) w =
    Some \<lparr>email = QStringLiteral ''a@example.com'', mac = sampleMac,
          uuid = QStringLiteral ''abc'', issued = Some 1000, expires = Some 2000\<rparr>"
    by (simp add: w_def loadBlob_anchor sample_loadBlob sample_parse)
  have ne: "QStringLiteral ''a@example.com'' \<noteq> []" "QStringLiteral ''abc'' \<noteq> []"
    "length (QStringLiteral ''abc'') \<noteq> 36"
    by (simp_all add: QStringLiteral_def)
  have m: "spec_machineHasHardwareId w sampleMac"
    by (simp add: w_def machineHas_anchor sample_machineHas)
  have a: "spec_anchorValue w = Some (QStringLiteral ''abc'')"
    unfolding w_def by (rule short_anchorValue)
  have x: "spec_notExpired w \<lparr>email = QStringLiteral ''a@example.com'', mac = sampleMac,
          uuid = QStringLiteral ''abc'', issued = Some 1000, expires = Some 2000\<rparr>"
    by (simp add: w_def notExpired_anchor sample_notExpired)
  have s1: "spec_firstFailing (sampleLibrary shortIdObject) w = AllChecksPassed"
    by (simp add: spec_firstFailing_def spec_decodedRecord_def b spec_isEmpty_def ne
        sampleMac_facts m a x)
  have c1: "hasValidLicense_exit (sampleLibrary shortIdObject) w = UuidCheckFailed"
    by (simp add: exit_steps b ne sampleMac_facts m a)
  have b2: "spec_loadBlob (sampleLibrary noMacObject) sampleWorld =
    Some \<lparr>email = QStringLiteral ''a@example.com'', mac = [], uuid = sampleUuid,
          issued = Some 1000, expires = Some 2000\<rparr>"
    by (simp add: sample_loadBlob sample_parse)
  have s2: "spec_firstFailing (sampleLibrary noMacObject) sampleWorld = NoLicenseOrEmpty"
    by (simp add: spec_firstFailing_def spec_decodedRecord_def b2 spec_isEmpty_def)
  have c2: "hasValidLicense_exit (sampleLibrary noMacObject) sampleWorld = MacCheckFailed"
    by (simp add: exit_steps b2 ne)
  show ?thesis
    using s1 c1 s2 c2 unfolding w_def by (simp add: exit_valid spec_isLicenseValid_def)
qed

text \<open>
  C1, amended: the validator makes four checks in this order, and the first one that
  fails gives the outcome. (1) The blob decodes, with the key derived from the hardware id
  of the current machine (not the one stored in the record), to a parseable record whose
  email is set. (2) The record's hardware id is set and some interface reports exactly
  it. (3) The anchor value is present, is 36 characters long, holds a dash and equals the
  record's activation id. (4) The record expires strictly later than now. The license is
  valid exactly when all four pass. With \<open>non-empty\<close> in check 1 read as the
  specification defines it (email, hardware id and activation id all set) the verdict is
  the same; only the check at which a record without hardware id or activation id fails is
  another.
\<close>

theorem validator_checks:
  "hasValidLicense_exit qt w =
    (case spec_loadBlob qt w of
       None \<Rightarrow> NoLicenseOrEmpty
     | Some r \<Rightarrow>
         if email r = [] then NoLicenseOrEmpty
         else if mac r = [] \<or> \<not> spec_machineHasHardwareId w (mac r) then MacCheckFailed
         else if \<not> (spec_anchorValue w = Some (uuid r) \<and> length (uuid r) = 36
                    \<and> 0x2D \<in> set (uuid r)) then UuidCheckFailed
         else if \<not> spec_notExpired w r then LicenseExpired
         else AllChecksPassed)
  \<and> (hasValidLicense qt w \<longleftrightarrow> hasValidLicense_exit qt w = AllChecksPassed)
  \<and> (hasValidLicense qt w \<longleftrightarrow>
        (case spec_decodedRecord qt w of
           None \<Rightarrow> False
         | Some r \<Rightarrow>
             spec_machineHasHardwareId w (mac r)
             \<and> (spec_anchorValue w = Some (uuid r) \<and> length (uuid r) = 36
                  \<and> 0x2D \<in> set (uuid r))
             \<and> spec_notExpired w r))"
proof -
  have third: "hasValidLicense qt w \<longleftrightarrow>
        (case spec_decodedRecord qt w of
           None \<Rightarrow> False
         | Some r \<Rightarrow>
             spec_machineHasHardwareId w (mac r)
             \<and> (spec_anchorValue w = Some (uuid r) \<and> length (uuid r) = 36
                  \<and> 0x2D \<in> set (uuid r))
             \<and> spec_notExpired w r)"
  proof (cases "spec_loadBlob qt w")
    case None
    then show ?thesis
      by (simp add: exit_valid exit_steps spec_decodedRecord_def)
  next
    case (Some r)
    show ?thesis
    proof (cases "spec_isEmpty r")
      case True
      then have "hasValidLicense_exit qt w \<noteq> AllChecksPassed"
        by (auto simp: exit_steps Some spec_isEmpty_def)
      then show ?thesis
        using True by (simp add: exit_valid spec_decodedRecord_def Some)
    next
      case False
      then show ?thesis
        by (auto simp: exit_valid exit_steps spec_decodedRecord_def Some spec_isEmpty_def)
    qed
  qed
  show ?thesis
    using exit_steps[of qt w] exit_valid[of qt w] third by blast
qed

text \<open>The sample machine passes all four checks.\<close>

theorem validator_checks_witness:
  "hasValidLicense_exit sampleQt sampleWorld = AllChecksPassed
  \<and> hasValidLicense sampleQt sampleWorld
  \<and> spec_loadBlob sampleQt sampleWorld =
      Some \<lparr>email = QStringLiteral ''a@example.com'', mac = sampleMac, uuid = sampleUuid,
            issued = Some 1000, expires = Some 2000\<rparr>
  \<and> sampleMac \<noteq> [] \<and> spec_machineHasHardwareId sampleWorld sampleMac
  \<and> spec_anchorValue sampleWorld = Some sampleUuid"
proof -
  have b: "spec_loadBlob sampleQt sampleWorld =
      Some \<lparr>email = QStringLiteral ''a@example.com'', mac = sampleMac, uuid = sampleUuid,
            issued = Some 1000, expires = Some 2000\<rparr>"
    by (simp add: sampleQt_def sample_loadBlob sample_parse)
  have ne: "QStringLiteral ''a@example.com'' \<noteq> []"
    by (simp add: QStringLiteral_def)
  have e: "hasValidLicense_exit sampleQt sampleWorld = AllChecksPassed"
    using validator_checks[of sampleQt sampleWorld, THEN conjunct1]
    by (simp add: b ne sampleMac_facts sample_machineHas sample_anchorValue
        sampleUuid_hexdash sample_notExpired)
  have v: "hasValidLicense sampleQt sampleWorld"
    using validator_checks[of sampleQt sampleWorld, THEN conjunct2, THEN conjunct1] e by simp
  show ?thesis
    using e v b sampleMac_facts(1) sample_machineHas(1) sample_anchorValue by simp
qed

text \<open>
  C5, as the specification states it: a record is treated as empty if and only if at
  least one of \<open>email\<close>, \<open>mac\<close> and \<open>uuid\<close> is unset. \<open>isEmpty\<close> tests \<open>email\<close> alone:
  a record with an email and neither \<open>mac\<close> nor \<open>uuid\<close> is not empty.
\<close>

theorem isEmpty_counterexample:
  "\<not> (\<forall>license. isEmpty license \<longleftrightarrow>
        email license = [] \<or> mac license = [] \<or> uuid license = [])"
proof
  assume all: "\<forall>license. isEmpty license \<longleftrightarrow>
        email license = [] \<or> mac license = [] \<or> uuid license = []"
  have "isEmpty \<lparr>email = [0x61], mac = [], uuid = [], issued = None, expires = None\<rparr>"
    using all by simp
  then show False by (simp add: isEmpty_def)
qed

text \<open>
  C5, amended: a record is treated as empty if and only if its \<open>email\<close> is unset; \<open>mac\<close>
  and \<open>uuid\<close> have no part in it.
\<close>

theorem isEmpty_email_only:
  "(isEmpty license \<longleftrightarrow> email license = [])
    \<and> isEmpty (license\<lparr>mac := m, uuid := u\<rparr>) = isEmpty license"
  by (simp add: isEmpty_def)

text \<open>
  C9: \<open>systemHasMacAddress\<close> is false for the empty address whatever the interfaces
  report, so a loaded record without a hardware id never validates.
\<close>

theorem empty_mac_never_matches:
  "systemHasMacAddress w [] = False
    \<and> (mac (loadLicense qt w) = [] \<longrightarrow> hasValidLicense qt w = False)"
  by (simp add: systemHasMacAddress_def hasValidLicense_def Let_def)

text \<open>
  The witness: a machine with an interface that reports an empty hardware address, and no
  license file, so that the loaded record has an empty \<open>mac\<close>.
\<close>

theorem empty_mac_never_matches_witness:
  "(\<exists>interface \<in> set (allInterfaces (sampleWorld\<lparr>licenseFile := None\<rparr>)).
        hardwareAddress interface = [])
    \<and> mac (loadLicense sampleQt (sampleWorld\<lparr>licenseFile := None\<rparr>)) = []
    \<and> systemHasMacAddress (sampleWorld\<lparr>licenseFile := None\<rparr>) [] = False
    \<and> hasValidLicense sampleQt (sampleWorld\<lparr>licenseFile := None\<rparr>) = False"
proof -
  have i: "\<exists>interface \<in> set (allInterfaces (sampleWorld\<lparr>licenseFile := None\<rparr>)).
        hardwareAddress interface = []"
    by (simp add: sampleWorld_def)
  have m: "mac (loadLicense sampleQt (sampleWorld\<lparr>licenseFile := None\<rparr>)) = []"
    by (simp add: loadLicense_def defaultLicenseData_def)
  show ?thesis
    using empty_mac_never_matches[of "sampleWorld\<lparr>licenseFile := None\<rparr>" sampleQt] i m
    by simp
qed

text \<open>
  C10: when the machine has no hardware id, \<open>loadLicense\<close> returns the default record
  without decoding, and \<open>hasValidLicense\<close> is false whatever the two files hold.
\<close>

theorem no_hardware_id_invalid:
  assumes "getFirstMacAddress w = []"
  shows "hasValidLicense qt w = False \<and> loadLicense qt w = defaultLicenseData"
proof -
  have "loadLicense qt w = defaultLicenseData"
    using assms by (simp add: loadLicense_def Let_def split: option.splits)
  then show ?thesis
    by (simp add: hasValidLicense_def isEmpty_def defaultLicenseData_def)
qed

text \<open>
  The witness: the sample machine, whose two files make a valid license, after its
  interfaces are replaced by a single loopback interface.
\<close>

theorem no_hardware_id_invalid_witness:
  "getFirstMacAddress
      (sampleWorld\<lparr>allInterfaces := [\<lparr>isLoopBack = True, hardwareAddress = sampleMac\<rparr>]\<rparr>) = []
    \<and> hasValidLicense sampleQt
      (sampleWorld\<lparr>allInterfaces := [\<lparr>isLoopBack = True, hardwareAddress = sampleMac\<rparr>]\<rparr>) = False"
proof -
  have g: "getFirstMacAddress
      (sampleWorld\<lparr>allInterfaces := [\<lparr>isLoopBack = True, hardwareAddress = sampleMac\<rparr>]\<rparr>) = []"
    by (simp add: getFirstMacAddress_def)
  show ?thesis
    using no_hardware_id_invalid[OF g, of sampleQt] g by simp
qed

section \<open>Claims about the anchor file\<close>

text \<open>
  C6, as the specification states it: whenever the anchor file exists and the pattern
  matches its text, the read returns the first captured group, trimmed. The text of the
  file is what a read in text mode gives, decoded as UTF-8. For a file that holds
  \<^verbatim>\<open># PAYWALL_UUID: abc\<close> the pattern matches and captures \<^verbatim>\<open>abc\<close>, yet
  \<open>loadUuidFromConfig\<close> returns the empty text: the code goes on to require 36 characters
  and a dash.
\<close>

theorem loadUuid_counterexample:
  "\<not> (\<forall>w ba g. anchorFile w = Some ba \<and> anchorReadable w
        \<and> firstCaptured (fromUtf8 (textModeRead ba)) = Some g
        \<longrightarrow> loadUuidFromConfig w = trimmed g)"
proof
  assume all: "\<forall>w ba g. anchorFile w = Some ba \<and> anchorReadable w
      \<and> firstCaptured (fromUtf8 (textModeRead ba)) = Some g
      \<longrightarrow> loadUuidFromConfig w = trimmed g"
  define abc where "abc = QStringLiteral ''abc''"
  define ba where "ba = toUtf8 (markerLiteral @ abc)"
  define w where "w = sampleWorld\<lparr>anchorFile := Some ba\<rparr>"
  have hex: "list_all isHexDash abc" "abc \<noteq> []" "length abc = 3"
    by (simp_all add: abc_def QStringLiteral_def isHexDash_def)
  have rd: "fromUtf8 (textModeRead ba) = markerLiteral @ abc"
    unfolding ba_def
    by (rule read_plain)
      (simp_all add: wellFormed_plain markerLiteral_def abc_def QStringLiteral_def
        isSurrogate_def)
  have "matchMarkerAt (markerLiteral @ abc @ []) = Some (abc, [])"
    using hex by (intro matchMarkerAt_literal) simp_all
  then have cap: "firstCaptured (fromUtf8 (textModeRead ba)) = Some abc"
    by (simp add: rd firstCaptured_match)
  have f: "anchorFile w = Some ba" "anchorReadable w"
    by (simp_all add: w_def sampleWorld_def)
  have "loadUuidFromConfig w = []"
    using hex by (simp add: loadUuidFromConfig_def f cap trimmed_hexdash)
  moreover have "loadUuidFromConfig w = trimmed abc"
    using all f cap by blast
  ultimately show False
    using hex by (simp add: trimmed_hexdash)
qed

text \<open>
  C6, amended: the read returns the first captured group of the marker pattern when the
  file exists, can be read, the pattern matches, and the group is 36 characters long and
  contains a dash; in every other case (no file, no match, a group of another length or
  without a dash) it returns the empty text. The captured group holds no white space, so
  trimming never changes it.
\<close>

theorem loadUuid_result:
  "loadUuidFromConfig w =
    (case anchorFile w of
       None \<Rightarrow> []
     | Some ba \<Rightarrow>
         if \<not> anchorReadable w then []
         else
           (case firstCaptured (fromUtf8 (textModeRead ba)) of
              None \<Rightarrow> []
            | Some g \<Rightarrow> if length g = 36 \<and> 0x2D \<in> set g then g else []))"
proof -
  have "trimmed g = g" if "firstCaptured s = Some g" for s g
    using firstCaptured_Some[OF that] by (simp add: trimmed_hexdash)
  then show ?thesis
    by (auto simp: loadUuidFromConfig_def Let_def split: option.splits)
qed

theorem loadUuid_result_witness:
  "loadUuidFromConfig sampleWorld = sampleUuid \<and> length sampleUuid = 36 \<and> 0x2D \<in> set sampleUuid
    \<and> firstCaptured (anchorText sampleWorld) = Some sampleUuid"
proof -
  have f: "anchorFile sampleWorld
      = Some (toUtf8 (uuidComment sampleUuid @ QStringLiteral ''project(test)''))"
    "anchorReadable sampleWorld"
    by (simp_all add: sampleWorld_def)
  have c: "firstCaptured (fromUtf8 (textModeRead
      (toUtf8 (uuidComment sampleUuid @ QStringLiteral ''project(test)'')))) = Some sampleUuid"
    using sample_firstCaptured by (simp add: anchorText_def f)
  show ?thesis
    using loadUuid_result[of sampleWorld] c sampleUuid_hexdash sample_firstCaptured
    by (simp add: f)
qed

text \<open>
  C7, as the specification states it: the anchor write keeps the file byte for byte, apart
  from removing the prior marker lines and putting the new marker line in front. For a
  file of 7-bit text without carriage returns, on a platform that writes line feeds as
  they are and with a write that reaches the file, this says that the new file holds
  \<open>spec_newAnchorContent\<close>. The removal pattern ends in \<^verbatim>\<open>\s*\<close>, which also takes the
  line feed and the white space that opens the next line: for a file that holds the
  marker line for \<^verbatim>\<open>abc\<close> followed by the line \<^verbatim>\<open>  x\<close>, the code writes the new marker
  line and \<^verbatim>\<open>x\<close>, without the two spaces.
\<close>

theorem anchor_write_counterexample:
  "\<not> (\<forall>w u w' s. anchorFile w = Some (toUtf8 s) \<and> list_all (\<lambda>c. c < 0x80) s
        \<and> 0x0D \<notin> set s \<and> \<not> crlfLineEnds w \<and> anchorWriteFault w = None
        \<and> list_all isHexDash u \<and> saveUuidToConfig w u = (True, w')
        \<longrightarrow> anchorFile w' = Some (toUtf8 (spec_newAnchorContent s u)))"
proof
  assume all: "\<forall>w u w' s. anchorFile w = Some (toUtf8 s) \<and> list_all (\<lambda>c. c < 0x80) s
        \<and> 0x0D \<notin> set s \<and> \<not> crlfLineEnds w \<and> anchorWriteFault w = None
        \<and> list_all isHexDash u \<and> saveUuidToConfig w u = (True, w')
        \<longrightarrow> anchorFile w' = Some (toUtf8 (spec_newAnchorContent s u))"
  define abc where "abc = QStringLiteral ''abc''"
  define x where "x = QStringLiteral ''x''"
  define sx where "sx = QStringLiteral ''  x''"
  define content where "content = uuidComment abc @ sx"
  define w where "w = sampleWorld\<lparr>anchorFile := Some (toUtf8 content)\<rparr>"
  define w' where "w' = snd (saveUuidToConfig w sampleUuid)"
  have hex: "list_all isHexDash abc" "abc \<noteq> []"
    by (simp_all add: abc_def QStringLiteral_def isHexDash_def)
  have a: "list_all (\<lambda>c. c < 0x80) content" "0x0D \<notin> set content"
    by (simp_all add: content_def abc_def sx_def uuidComment_def markerLiteral_def
        QStringLiteral_def)
  have wf: "wellFormed content"
    by (intro wellFormed_plain)
      (simp add: content_def abc_def sx_def uuidComment_def markerLiteral_def
        QStringLiteral_def isSurrogate_def)
  have f: "anchorFile w = Some (toUtf8 content)" "anchorReadable w" "anchorWritable w"
    "anchorWriteFault w = None" "\<not> crlfLineEnds w"
    by (simp_all add: w_def sampleWorld_def)
  have t: "anchorText w = content"
    using read_plain[OF wf a(2)] by (simp add: anchorText_def f content_def uuidComment_no_BOM)
  have save: "saveUuidToConfig w sampleUuid = (True, w')"
    unfolding w'_def using saveUuid_existing[OF f(1,2,3) sampleUuid_hexdash(2)] by simp
  have x: "firstCaptured x = None" "firstCaptured sx = None"
    by (simp_all add: x_def sx_def QStringLiteral_def matchMarkerAt_def startsWith_def
        markerLiteral_def)
  have "removeMatches content = removeMatches (dropWhile isReSpace sx)"
    unfolding content_def using hex by (rule removeMatches_uuidComment)
  also have "dropWhile isReSpace sx = x"
    by (simp add: sx_def x_def QStringLiteral_def isReSpace_def)
  finally have rm: "removeMatches content = x"
    by (simp add: removeMatches_no_match x)
  have code: "newAnchorContent content sampleUuid = uuidComment sampleUuid @ x"
    using newAnchorContent_clean[OF sampleUuid_hexdash(1,2), of content] by (simp add: rm x)
  have "splitLines content = uuidComment abc # splitLines sx"
    unfolding content_def using hex(1) by (rule splitLines_uuidComment)
  also have "splitLines sx = [sx]"
    by (simp add: sx_def QStringLiteral_def)
  finally have lines: "splitLines content = [uuidComment abc, sx]" .
  have m1: "isMarkerLine (uuidComment abc)"
    using hex by (rule isMarkerLine_uuidComment)
  have m2: "\<not> isMarkerLine sx"
    using x(2) by (simp add: isMarkerLine_def)
  have spec: "spec_newAnchorContent content sampleUuid = uuidComment sampleUuid @ sx"
    by (simp add: spec_newAnchorContent_def lines m1 m2)
  have "anchorFile w' = Some (toUtf8 (uuidComment sampleUuid @ x))"
    using saveUuid_state(1)[OF save] by (simp add: t code f stored_def textModeWrite_def)
  moreover have "anchorFile w' = Some (toUtf8 (uuidComment sampleUuid @ sx))"
    using all f a sampleUuid_hexdash(1) save spec by metis
  ultimately have e: "toUtf8 (uuidComment sampleUuid @ x) = toUtf8 (uuidComment sampleUuid @ sx)"
    by simp
  have r: "fromUtf8 (toUtf8 (uuidComment sampleUuid @ y)) = uuidComment sampleUuid @ y"
    if "list_all (\<lambda>c. \<not> isSurrogate c) y" for y
  proof (rule fromUtf8_toUtf8)
    have "wellFormed y"
      using that by (rule wellFormed_plain)
    then show "wellFormed (uuidComment sampleUuid @ y)"
      using wellFormed_append[OF wellFormed_uuidComment[OF
            hexdash_readable[OF sampleUuid_hexdash(1), THEN conjunct1]]]
      by simp
    show "\<forall>rest. uuidComment sampleUuid @ y \<noteq> 0xFEFF # rest"
      by (simp add: uuidComment_no_BOM)
  qed
  have "uuidComment sampleUuid @ x = uuidComment sampleUuid @ sx"
    using arg_cong[OF e, of fromUtf8]
    by (simp add: r x_def sx_def QStringLiteral_def isSurrogate_def)
  then show False
    by (simp add: x_def sx_def QStringLiteral_def)
qed

text \<open>
  C7, amended. The text of the anchor file is what a read in text mode gives (every
  carriage return dropped), decoded as UTF-8. The anchor write hands to the file, and
  when the write does not fail the file then holds, the new marker line \<^verbatim>\<open># PAYWALL_UUID: <activationId>\n\<close>
  followed by the old text from which every match of
  \<^verbatim>\<open># PAYWALL_UUID: [a-fA-F0-9\-]+\s*\<close> has been cut out: the marker, the id and all
  white space behind it, across line ends. Nothing else is cut; what precedes a marker on
  its line stays. For an id without unpaired surrogate or carriage return this is also
  the text read back from the file. The new marker line is not put in front when the remaining text already
  starts with it. A text without a marker remains whole, and when the file holds the
  UTF-8 form of such a text, free of carriage returns and of a leading byte-order mark,
  the new file is the marker line followed by the old bytes (with line feeds written as
  the platform writes them). The license blob is not touched.
\<close>

theorem anchor_write_frame:
  assumes "saveUuidToConfig w u = (True, w')"
  shows "anchorFile w' = Some (stored (anchorWriteFault w) (textModeWrite w (toUtf8
          (if startsWith (removeMatches (anchorText w)) (uuidComment u)
           then removeMatches (anchorText w)
           else uuidComment u @ removeMatches (anchorText w)))))
    \<and> (anchorWriteFault w = None \<and> wellFormed u \<and> 0x0D \<notin> set u \<longrightarrow>
        anchorText w' =
          (if startsWith (removeMatches (anchorText w)) (uuidComment u)
           then removeMatches (anchorText w)
           else uuidComment u @ removeMatches (anchorText w)))
    \<and> cutMarkers (anchorText w) (removeMatches (anchorText w))
    \<and> (firstCaptured (anchorText w) = None \<longrightarrow> removeMatches (anchorText w) = anchorText w)
    \<and> (\<forall>s. anchorFile w = Some (toUtf8 s) \<and> wellFormed s \<and> 0x0D \<notin> set s
          \<and> (\<forall>rest. s \<noteq> 0xFEFF # rest) \<and> firstCaptured s = None
          \<and> \<not> startsWith s (uuidComment u) \<and> anchorWriteFault w = None
        \<longrightarrow> anchorFile w' = Some (textModeWrite w (toUtf8 (uuidComment u) @ toUtf8 s)))
    \<and> licenseFile w' = licenseFile w"
proof -
  have bytes: "anchorFile w' = Some (textModeWrite w (toUtf8 (uuidComment u) @ toUtf8 s))"
    if f: "anchorFile w = Some (toUtf8 s)" and wf: "wellFormed s" and cr: "0x0D \<notin> set s"
      and bom: "\<forall>rest. s \<noteq> 0xFEFF # rest" and n: "firstCaptured s = None"
      and st: "\<not> startsWith s (uuidComment u)" and fault: "anchorWriteFault w = None" for s
  proof -
    have t: "anchorText w = s"
      using read_plain[OF wf cr bom] by (simp add: anchorText_def f)
    have "newAnchorContent (anchorText w) u = uuidComment u @ s"
      using n st by (simp add: t newAnchorContent_cases removeMatches_no_match)
    moreover have "toUtf8 (uuidComment u @ s) = toUtf8 (uuidComment u) @ toUtf8 s"
      using wellFormed_hd[OF wf] by (rule toUtf8_append)
    ultimately show ?thesis
      using saveUuid_state(1)[OF assms] fault by (simp add: stored_def)
  qed
  have landed: "anchorFile w' = Some (stored (anchorWriteFault w)
      (textModeWrite w (toUtf8 (newAnchorContent (anchorText w) u))))"
    using saveUuid_state(1)[OF assms] .
  have readback: "anchorText w' = newAnchorContent (anchorText w) u"
    if "anchorWriteFault w = None" "wellFormed u" "0x0D \<notin> set u"
    using saveUuid_text[OF assms that] .
  show ?thesis
    using landed readback bytes saveUuid_state(2)[OF assms] cutMarkers_removeMatches[of "anchorText w"]
    by (simp add: newAnchorContent_cases removeMatches_no_match)
qed

text \<open>
  Two runs on the sample machine. In the first the file holds the marker line of the id
  \<^verbatim>\<open>abc\<close> and the line \<^verbatim>\<open>  x\<close>: the old marker is cut out together with the line
  feed and the two spaces, and the file then reads as the new marker line and \<^verbatim>\<open>x\<close>.
  In the second the file holds \<^verbatim>\<open>project(test)\<close> and no marker: its bytes are kept
  behind the new marker line.
\<close>

theorem anchor_write_frame_witness:
  "saveUuidToConfig
      (sampleWorld\<lparr>anchorFile :=
        Some (toUtf8 (uuidComment (QStringLiteral ''abc'') @ QStringLiteral ''  x''))\<rparr>) sampleUuid
    = (True, snd (saveUuidToConfig
      (sampleWorld\<lparr>anchorFile :=
        Some (toUtf8 (uuidComment (QStringLiteral ''abc'') @ QStringLiteral ''  x''))\<rparr>) sampleUuid))
  \<and> anchorText (snd (saveUuidToConfig
      (sampleWorld\<lparr>anchorFile :=
        Some (toUtf8 (uuidComment (QStringLiteral ''abc'') @ QStringLiteral ''  x''))\<rparr>) sampleUuid))
    = uuidComment sampleUuid @ QStringLiteral ''x''
  \<and> cutMarkers (uuidComment (QStringLiteral ''abc'') @ QStringLiteral ''  x'') (QStringLiteral ''x'')
  \<and> saveUuidToConfig
      (sampleWorld\<lparr>anchorFile := Some (toUtf8 (QStringLiteral ''project(test)''))\<rparr>) sampleUuid
    = (True, snd (saveUuidToConfig
      (sampleWorld\<lparr>anchorFile := Some (toUtf8 (QStringLiteral ''project(test)''))\<rparr>) sampleUuid))
  \<and> anchorFile (snd (saveUuidToConfig
      (sampleWorld\<lparr>anchorFile := Some (toUtf8 (QStringLiteral ''project(test)''))\<rparr>) sampleUuid))
    = Some (toUtf8 (uuidComment sampleUuid) @ toUtf8 (QStringLiteral ''project(test)''))"
proof -
  define abc where "abc = QStringLiteral ''abc''"
  define x where "x = QStringLiteral ''x''"
  define sx where "sx = QStringLiteral ''  x''"
  define p where "p = QStringLiteral ''project(test)''"
  define content where "content = uuidComment abc @ sx"
  define w where "w = sampleWorld\<lparr>anchorFile := Some (toUtf8 content)\<rparr>"
  define w' where "w' = snd (saveUuidToConfig w sampleUuid)"
  define v where "v = sampleWorld\<lparr>anchorFile := Some (toUtf8 p)\<rparr>"
  define v' where "v' = snd (saveUuidToConfig v sampleUuid)"
  have hex: "list_all isHexDash abc" "abc \<noteq> []"
    by (simp_all add: abc_def QStringLiteral_def isHexDash_def)
  have cr: "0x0D \<notin> set content" "0x0D \<notin> set p"
    by (simp_all add: content_def abc_def sx_def p_def uuidComment_def markerLiteral_def
        QStringLiteral_def)
  have wf: "wellFormed content" "wellFormed p"
    by (intro wellFormed_plain;
        simp add: content_def abc_def sx_def p_def uuidComment_def markerLiteral_def
          QStringLiteral_def isSurrogate_def)+
  have bom: "\<forall>rest. content \<noteq> 0xFEFF # rest" "\<forall>rest. p \<noteq> 0xFEFF # rest"
    by (simp_all add: content_def uuidComment_no_BOM p_def QStringLiteral_def)
  have f: "anchorFile w = Some (toUtf8 content)" "anchorReadable w" "anchorWritable w"
    "anchorWriteFault w = None"
    by (simp_all add: w_def sampleWorld_def)
  have g: "anchorFile v = Some (toUtf8 p)" "anchorReadable v" "anchorWritable v"
    "anchorWriteFault v = None" "\<not> crlfLineEnds v"
    by (simp_all add: v_def sampleWorld_def)
  have t: "anchorText w = content"
    using read_plain[OF wf(1) cr(1) bom(1)] by (simp add: anchorText_def f)
  have save: "saveUuidToConfig w sampleUuid = (True, w')"
    unfolding w'_def using saveUuid_existing[OF f(1,2,3) sampleUuid_hexdash(2)] by simp
  have save2: "saveUuidToConfig v sampleUuid = (True, v')"
    unfolding v'_def using saveUuid_existing[OF g(1,2,3) sampleUuid_hexdash(2)] by simp
  have nx: "firstCaptured x = None" "firstCaptured p = None"
    by (simp_all add: x_def p_def QStringLiteral_def matchMarkerAt_def startsWith_def
        markerLiteral_def)
  have "removeMatches content = removeMatches (dropWhile isReSpace sx)"
    unfolding content_def using hex by (rule removeMatches_uuidComment)
  also have "dropWhile isReSpace sx = x"
    by (simp add: sx_def x_def QStringLiteral_def isReSpace_def)
  finally have rm: "removeMatches content = x"
    by (simp add: removeMatches_no_match nx)
  have ns: "\<not> startsWith x (uuidComment sampleUuid)" "\<not> startsWith p (uuidComment sampleUuid)"
    by (simp_all add: startsWith_def x_def p_def uuidComment_def markerLiteral_def
        QStringLiteral_def)
  note frame = anchor_write_frame[OF save]
  have r: "wellFormed sampleUuid \<and> 0x0D \<notin> set sampleUuid"
    using sampleUuid_hexdash(1) by (rule hexdash_readable)
  have e1: "anchorText w' = uuidComment sampleUuid @ x"
    using frame[THEN conjunct2, THEN conjunct1] f(4) r by (simp add: t rm ns)
  have e2: "cutMarkers content x"
    using frame[THEN conjunct2, THEN conjunct2, THEN conjunct1] by (simp add: t rm)
  note frame2 = anchor_write_frame[OF save2]
  have e3: "anchorFile v' = Some (toUtf8 (uuidComment sampleUuid) @ toUtf8 p)"
    using frame2[THEN conjunct2, THEN conjunct2, THEN conjunct2, THEN conjunct2, THEN conjunct1,
        rule_format, of p] g wf(2) cr(2) bom(2) nx(2) ns(2)
    by (simp add: textModeWrite_def)
  show ?thesis
    using save e1 e2 save2 e3
    unfolding w'_def w_def v'_def v_def content_def abc_def x_def sx_def p_def by blast
qed

text \<open>
  C8, as the specification states it: for every starting content, two anchor writes in
  succession leave exactly one marker line, the one of the second id. Cutting a match out
  can join the text before and after it into a new marker. With three markers nested in
  one another, each write uncovers one of them, and after the second write the file holds
  the new marker line and the marker line for \<^verbatim>\<open>c\<close>. Both writes reach the file here,
  and the file is 7-bit text.
\<close>

theorem two_writes_counterexample:
  "\<not> (\<forall>w u1 u2 w1 w2.
        list_all isHexDash u1 \<and> u1 \<noteq> [] \<and> list_all isHexDash u2 \<and> u2 \<noteq> []
        \<and> anchorWriteFault w = None
        \<and> saveUuidToConfig w u1 = (True, w1) \<and> saveUuidToConfig w1 u2 = (True, w2)
        \<longrightarrow> markerLines (anchorText w2) = [uuidComment u2])"
proof
  assume all: "\<forall>w u1 u2 w1 w2.
        list_all isHexDash u1 \<and> u1 \<noteq> [] \<and> list_all isHexDash u2 \<and> u2 \<noteq> []
        \<and> anchorWriteFault w = None
        \<and> saveUuidToConfig w u1 = (True, w1) \<and> saveUuidToConfig w1 u2 = (True, w2)
        \<longrightarrow> markerLines (anchorText w2) = [uuidComment u2]"
  define frag where "frag = QStringLiteral ''# PAYWALL_''"
  define a where "a = QStringLiteral ''a''"
  define b where "b = QStringLiteral ''UUID: b'' @ [0x0A]"
  define c where "c = QStringLiteral ''c''"
  define nested where "nested = frag @ frag @ uuidComment a @ b @ QStringLiteral ''UUID: c'' @ [0x0A]"
  define n1 where "n1 = frag @ frag @ b @ QStringLiteral ''UUID: c'' @ [0x0A]"
  define u2 where "u2 = QStringLiteral ''00000000-0000-4000-8000-000000000002''"
  define w where "w = sampleWorld\<lparr>anchorFile := Some (toUtf8 nested)\<rparr>"
  define w1 where "w1 = snd (saveUuidToConfig w sampleUuid)"
  define w2 where "w2 = snd (saveUuidToConfig w1 u2)"
  note lits = frag_def a_def b_def c_def QStringLiteral_def uuidComment_def markerLiteral_def
  note eval = matchMarkerAt_def startsWith_def isHexDash_def isReSpace_def
  have hex: "list_all isHexDash c" "c \<noteq> []" "list_all isHexDash u2" "u2 \<noteq> []"
    by (simp_all add: c_def u2_def QStringLiteral_def isHexDash_def)
  have r0: "removeMatches nested = n1"
    by (simp add: nested_def n1_def lits eval)
  have r1: "removeMatches n1 = uuidComment c"
    by (simp add: n1_def lits eval)
  have d1: "dropWhile isReSpace n1 = n1"
    by (simp add: n1_def lits eval)
  have s0: "\<not> startsWith n1 (uuidComment sampleUuid)"
    by (simp add: n1_def lits startsWith_def)
  have s1: "\<not> startsWith (uuidComment c) (uuidComment u2)"
    by (simp add: lits startsWith_def u2_def)
  have wf: "wellFormed nested"
    by (intro wellFormed_plain) (simp add: nested_def lits isSurrogate_def)
  have cr: "0x0D \<notin> set nested" "\<forall>rest. nested \<noteq> 0xFEFF # rest"
    by (simp_all add: nested_def lits)
  have f: "anchorFile w = Some (toUtf8 nested)" "anchorReadable w" "anchorWritable w"
    "anchorWriteFault w = None"
    by (simp_all add: w_def sampleWorld_def)
  have t0: "anchorText w = nested"
    using read_plain[OF wf cr] by (simp add: anchorText_def f)
  have save1: "saveUuidToConfig w sampleUuid = (True, w1)"
    unfolding w1_def using saveUuid_existing[OF f(1,2,3) sampleUuid_hexdash(2)] by simp
  have c1: "newAnchorContent nested sampleUuid = uuidComment sampleUuid @ n1"
    by (simp add: newAnchorContent_def r0 s0)
  have t1: "anchorText w1 = uuidComment sampleUuid @ n1"
    using saveUuid_text[OF save1 f(4)] hexdash_readable[OF sampleUuid_hexdash(1)]
    by (simp add: t0 c1)
  note st1 = saveUuid_state[OF save1]
  obtain ba1 where f1: "anchorFile w1 = Some ba1"
    using st1(1) by simp
  have fault1: "anchorWriteFault w1 = None"
    using st1(3) f(4) by simp
  have save2: "saveUuidToConfig w1 u2 = (True, w2)"
    unfolding w2_def using saveUuid_existing[OF f1 st1(4,5) hex(4)] by simp
  have "removeMatches (uuidComment sampleUuid @ n1) = removeMatches (dropWhile isReSpace n1)"
    using sampleUuid_hexdash(1,2) by (rule removeMatches_uuidComment)
  then have r2: "removeMatches (uuidComment sampleUuid @ n1) = uuidComment c"
    by (simp add: d1 r1)
  have c2: "newAnchorContent (uuidComment sampleUuid @ n1) u2 = uuidComment u2 @ uuidComment c"
    by (simp add: newAnchorContent_def r2 s1)
  have t2: "anchorText w2 = uuidComment u2 @ uuidComment c"
    using saveUuid_text[OF save2 fault1] hexdash_readable[OF hex(3)]
    by (simp add: t1 c2)
  have "splitLines (uuidComment u2 @ uuidComment c @ []) = [uuidComment u2, uuidComment c]"
    by (simp only: splitLines_uuidComment[OF hex(3)] splitLines_uuidComment[OF hex(1)]
        splitLines.simps)
  then have "markerLines (anchorText w2) = [uuidComment u2, uuidComment c]"
    using isMarkerLine_uuidComment[OF hex(1,2)] isMarkerLine_uuidComment[OF hex(3,4)]
    by (simp add: markerLines_def t2)
  moreover have "markerLines (anchorText w2) = [uuidComment u2]"
    using all sampleUuid_hexdash(1,2) hex(3,4) f(4) save1 save2 by blast
  ultimately show False by simp
qed

text \<open>
  C8, amended: when cutting the marker matches out of the starting text leaves a text
  without any marker match (as it does for every file whose markers were put there by
  this operation), two anchor writes in succession that reach the file, with ids of
  hexadecimal digits and dashes, leave exactly one marker line: the file then reads as the
  marker line of the second id followed by what was left of the starting text, and the
  pattern captures the second id. The starting file may hold any bytes.
\<close>

theorem two_writes_one_marker:
  assumes "list_all isHexDash u1" and "u1 \<noteq> []" and "list_all isHexDash u2" and "u2 \<noteq> []"
    and "saveUuidToConfig w u1 = (True, w1)" and "saveUuidToConfig w1 u2 = (True, w2)"
    and "anchorWriteFault w = None"
    and "firstCaptured (removeMatches (anchorText w)) = None"
  shows "anchorText w2 = uuidComment u2 @ dropWhile isReSpace (removeMatches (anchorText w))
    \<and> markerLines (anchorText w2) = [uuidComment u2]
    \<and> firstCaptured (anchorText w2) = Some u2"
proof -
  define r where "r = removeMatches (anchorText w)"
  define r2 where "r2 = dropWhile isReSpace r"
  have clean: "firstCaptured r = None"
    using assms(8) by (simp add: r_def)
  have clean2: "firstCaptured r2 = None"
    unfolding r2_def using clean by (rule firstCaptured_dropWhile)
  have c1: "newAnchorContent (anchorText w) u1 = uuidComment u1 @ r"
    unfolding r_def using assms(1,2,8) by (rule newAnchorContent_clean)
  have t1: "anchorText w1 = uuidComment u1 @ r"
    using saveUuid_text[OF assms(5,7)] hexdash_readable[OF assms(1)] by (simp add: c1)
  have fault1: "anchorWriteFault w1 = None"
    using saveUuid_state(3)[OF assms(5)] assms(7) by simp
  have "removeMatches (uuidComment u1 @ r) = removeMatches r2"
    unfolding r2_def using assms(1,2) by (rule removeMatches_uuidComment)
  then have rm: "removeMatches (anchorText w1) = r2"
    using clean2 by (simp add: t1 removeMatches_no_match)
  have c2: "newAnchorContent (anchorText w1) u2 = uuidComment u2 @ r2"
    using newAnchorContent_clean[OF assms(3,4), of "anchorText w1"] clean2 by (simp add: rm)
  have t2: "anchorText w2 = uuidComment u2 @ r2"
    using saveUuid_text[OF assms(6) fault1] hexdash_readable[OF assms(3)] by (simp add: c2)
  show ?thesis
    using markerLines_uuidComment[OF assms(3,4) clean2]
      firstCaptured_uuidComment[OF assms(3,4), of r2]
    by (simp add: t2 r2_def r_def)
qed

text \<open>
  The witness: a file that holds the marker line of the sample id, followed by a line
  with an accented letter and a euro sign, written to twice with two other ids.
\<close>

theorem two_writes_one_marker_witness:
  "saveUuidToConfig
      (sampleWorld\<lparr>anchorFile := Some (toUtf8 (uuidComment sampleUuid
          @ QStringLiteral ''caf'' @ [0xE9, 0x20, 0x20AC, 0x0A]))\<rparr>)
      (QStringLiteral ''00000000-0000-4000-8000-000000000001'')
    = (True, snd (saveUuidToConfig
      (sampleWorld\<lparr>anchorFile := Some (toUtf8 (uuidComment sampleUuid
          @ QStringLiteral ''caf'' @ [0xE9, 0x20, 0x20AC, 0x0A]))\<rparr>)
      (QStringLiteral ''00000000-0000-4000-8000-000000000001'')))
  \<and> saveUuidToConfig
      (snd (saveUuidToConfig
        (sampleWorld\<lparr>anchorFile := Some (toUtf8 (uuidComment sampleUuid
            @ QStringLiteral ''caf'' @ [0xE9, 0x20, 0x20AC, 0x0A]))\<rparr>)
        (QStringLiteral ''00000000-0000-4000-8000-000000000001'')))
      (QStringLiteral ''00000000-0000-4000-8000-000000000002'')
    = (True, snd (saveUuidToConfig
      (snd (saveUuidToConfig
        (sampleWorld\<lparr>anchorFile := Some (toUtf8 (uuidComment sampleUuid
            @ QStringLiteral ''caf'' @ [0xE9, 0x20, 0x20AC, 0x0A]))\<rparr>)
        (QStringLiteral ''00000000-0000-4000-8000-000000000001'')))
      (QStringLiteral ''00000000-0000-4000-8000-000000000002'')))
  \<and> anchorText (snd (saveUuidToConfig
      (snd (saveUuidToConfig
        (sampleWorld\<lparr>anchorFile := Some (toUtf8 (uuidComment sampleUuid
            @ QStringLiteral ''caf'' @ [0xE9, 0x20, 0x20AC, 0x0A]))\<rparr>)
        (QStringLiteral ''00000000-0000-4000-8000-000000000001'')))
      (QStringLiteral ''00000000-0000-4000-8000-000000000002'')))
    = uuidComment (QStringLiteral ''00000000-0000-4000-8000-000000000002'')
      @ QStringLiteral ''caf'' @ [0xE9, 0x20, 0x20AC, 0x0A]
  \<and> markerLines (anchorText (snd (saveUuidToConfig
      (snd (saveUuidToConfig
        (sampleWorld\<lparr>anchorFile := Some (toUtf8 (uuidComment sampleUuid
            @ QStringLiteral ''caf'' @ [0xE9, 0x20, 0x20AC, 0x0A]))\<rparr>)
        (QStringLiteral ''00000000-0000-4000-8000-000000000001'')))
      (QStringLiteral ''00000000-0000-4000-8000-000000000002''))))
    = [uuidComment (QStringLiteral ''00000000-0000-4000-8000-000000000002'')]"
proof -
  define p where "p = QStringLiteral ''caf'' @ [0xE9, 0x20, 0x20AC, 0x0A]"
  define u1 where "u1 = QStringLiteral ''00000000-0000-4000-8000-000000000001''"
  define u2 where "u2 = QStringLiteral ''00000000-0000-4000-8000-000000000002''"
  define w where "w = sampleWorld\<lparr>anchorFile := Some (toUtf8 (uuidComment sampleUuid @ p))\<rparr>"
  define w1 where "w1 = snd (saveUuidToConfig w u1)"
  define w2 where "w2 = snd (saveUuidToConfig w1 u2)"
  have hex: "list_all isHexDash u1" "u1 \<noteq> []" "list_all isHexDash u2" "u2 \<noteq> []"
    by (simp_all add: u1_def u2_def QStringLiteral_def isHexDash_def)
  have pp: "list_all (\<lambda>c. \<not> isSurrogate c) p" "0x0D \<notin> set p"
    by (simp_all add: p_def QStringLiteral_def isSurrogate_def)
  have wf: "wellFormed (uuidComment sampleUuid @ p)"
    using wellFormed_append[OF wellFormed_uuidComment[OF
          hexdash_readable[OF sampleUuid_hexdash(1), THEN conjunct1]], of p]
      wellFormed_plain[OF pp(1)]
    by simp
  have cr: "0x0D \<notin> set (uuidComment sampleUuid @ p)"
    using uuidComment_no_CR[OF hexdash_readable[OF sampleUuid_hexdash(1), THEN conjunct2]] pp(2)
    by simp
  have f: "anchorFile w = Some (toUtf8 (uuidComment sampleUuid @ p))" "anchorReadable w"
    "anchorWritable w" "anchorWriteFault w = None"
    by (simp_all add: w_def sampleWorld_def)
  have t: "anchorText w = uuidComment sampleUuid @ p"
    using read_plain[OF wf cr] by (simp add: anchorText_def f uuidComment_no_BOM)
  have save1: "saveUuidToConfig w u1 = (True, w1)"
    unfolding w1_def using saveUuid_existing[OF f(1,2,3) hex(2)] by simp
  note st1 = saveUuid_state[OF save1]
  obtain ba1 where f1: "anchorFile w1 = Some ba1"
    using st1(1) by simp
  have save2: "saveUuidToConfig w1 u2 = (True, w2)"
    unfolding w2_def using saveUuid_existing[OF f1 st1(4,5) hex(4)] by simp
  have np: "firstCaptured p = None" "dropWhile isReSpace p = p"
    by (simp_all add: p_def QStringLiteral_def matchMarkerAt_def startsWith_def
        markerLiteral_def isReSpace_def)
  have "removeMatches (uuidComment sampleUuid @ p) = removeMatches (dropWhile isReSpace p)"
    using sampleUuid_hexdash(1,2) by (rule removeMatches_uuidComment)
  then have r: "removeMatches (anchorText w) = p"
    by (simp add: t np removeMatches_no_match)
  have clean: "firstCaptured (removeMatches (anchorText w)) = None"
    by (simp add: r np)
  note both = two_writes_one_marker[OF hex save1 save2 f(4) clean]
  have e1: "anchorText w2 = uuidComment u2 @ p"
    using both[THEN conjunct1] by (simp add: r np)
  have e2: "markerLines (anchorText w2) = [uuidComment u2]"
    using both[THEN conjunct2, THEN conjunct1] .
  show ?thesis
    using e1 e2 save1 save2 unfolding w2_def w1_def w_def p_def u1_def u2_def by blast
qed

section \<open>Claims about activation\<close>

text \<open>
  C2, as the specification states it: \<open>activateNewLicense\<close> returns true only if the blob
  write and the anchor write both succeeded, that is, only if each file then holds what
  was written to it. The code tests the opening of each file and nothing after it. On the
  sample machine with an anchor file whose write fails and leaves the file empty, the
  activation returns true, and the anchor file holds no marker.
\<close>

theorem activate_counterexample:
  "\<not> (\<forall>qt w emailStr w'. activateNewLicense qt w emailStr = (True, w')
        \<longrightarrow> (\<exists>lb ab. WriteLicense lb \<in> set (fsLog w') \<and> WriteAnchor ab \<in> set (fsLog w')
              \<and> licenseFile w' = Some lb \<and> anchorFile w' = Some ab))"
proof
  assume all: "\<forall>qt w emailStr w'. activateNewLicense qt w emailStr = (True, w')
        \<longrightarrow> (\<exists>lb ab. WriteLicense lb \<in> set (fsLog w') \<and> WriteAnchor ab \<in> set (fsLog w')
              \<and> licenseFile w' = Some lb \<and> anchorFile w' = Some ab)"
  define e where "e = QStringLiteral ''a@example.com''"
  define w where "w = sampleWorld\<lparr>anchorWriteFault := Some []\<rparr>"
  define ok where "ok = fst (activateNewLicense sampleQt w e)"
  define w' where "w' = snd (activateNewLicense sampleQt w e)"
  have run: "activateNewLicense sampleQt w e = (ok, w')"
    by (simp add: ok_def w'_def)
  note steps = activate_steps[OF run]
  have hw: "spec_resolveHardwareId w = Some sampleMac"
    using sample_resolve by (simp add: w_def spec_resolveHardwareId_def)
  have f: "uuidSource w = [sampleUuid]" "licenseWritable w" "anchorFile w \<noteq> None"
    "anchorReadable w" "anchorWritable w" "fsLog w = []" "anchorWriteFault w = Some []"
    "\<not> crlfLineEnds w"
    by (simp_all add: w_def sampleWorld_def)
  have em: "trimmed e \<noteq> []"
    by (simp add: e_def trimmed_def isSpace_def QStringLiteral_def)
  have js: "toJsonString sampleQt r = [0x4A]" for r
    by (simp add: toJsonString_def sampleQt_def sampleLibrary_def fromUtf8_def fromUtf8_step_def)
  have key: "spec_deriveKey m \<noteq> []" for m
    by (simp add: spec_deriveKey_def QStringLiteral_def)
  have blob: "spec_blob sampleQt r \<noteq> []" for r
    by (simp add: spec_blob_def xorEncrypt_empty_iff js key)
  have ok: "ok"
    using steps[THEN conjunct1] hw f em blob sampleUuid_hexdash(2) by simp
  from steps[THEN conjunct2, THEN conjunct1] ok obtain pre
    where pre: "set pre \<subseteq> {MakeTestDir, CreateAnchor}"
      and lg: "fsLog w' = WriteLicense (textModeWrite w (toUtf8
                  (spec_blob sampleQt (spec_newRecord sampleQt e sampleMac sampleUuid
                    (currentDateTime w)))))
              # pre
              @ [WriteAnchor (textModeWrite w (toUtf8 (newAnchorContent (anchorText w) sampleUuid)))]"
      and af: "anchorFile w' = Some []"
    using hw f by (auto simp: stored_def)
  have "activateNewLicense sampleQt w e = (True, w')"
    using run ok by simp
  with all obtain ab where ab: "WriteAnchor ab \<in> set (fsLog w')" "anchorFile w' = Some ab"
    by blast
  then have "ab = []"
    using af by simp
  then have "WriteAnchor [] \<in> set (fsLog w')"
    using ab(1) by simp
  then have "textModeWrite w (toUtf8 (newAnchorContent (anchorText w) sampleUuid)) = []"
    using pre unfolding lg by auto
  then have "newAnchorContent (anchorText w) sampleUuid = []"
    using f(8) by (simp add: textModeWrite_def toUtf8_empty_iff)
  then show False
    using newAnchorContent_prefix[of "anchorText w" sampleUuid]
    by (auto simp: uuidComment_def)
qed

text \<open>
  C2, amended. \<open>activateNewLicense\<close> issues the blob write exactly when a hardware id
  and a non-empty activation id are obtained, the trimmed email and the encoded record are
  not empty, and the blob file can be opened for writing; it returns true exactly when,
  in addition, the anchor file exists or can be created and can be opened for reading and
  writing. On a true result it has issued the blob write first and the anchor write last,
  with at most the creation of the anchor's directory and file between them: the blob
  write hands over the encoded record, the anchor write the new anchor text. Neither write
  is checked, so each file holds what was written only if its write did not fail. When
  the blob write is not issued (in particular when the blob file cannot be opened), the
  result is false and both files, the anchor's directory and the log are as before. When
  the blob file was opened and the result is false, the blob was written and the anchor
  write was not issued.
\<close>

theorem activate_result:
  assumes "activateNewLicense qt w emailStr = (ok, w')"
  shows "(ok \<longleftrightarrow>
        ((\<exists>hw u rest. spec_resolveHardwareId w = Some hw \<and> uuidSource w = u # rest \<and> u \<noteq> []
          \<and> trimmed emailStr \<noteq> []
          \<and> spec_blob qt (spec_newRecord qt emailStr hw u (currentDateTime w)) \<noteq> [])
         \<and> licenseWritable w)
        \<and> (anchorFile w \<noteq> None \<or> testDirExists w \<or> mkpathOk w)
        \<and> anchorReadable w \<and> anchorWritable w)
    \<and> (ok \<longrightarrow>
        (\<exists>hw u rest pre. spec_resolveHardwareId w = Some hw \<and> uuidSource w = u # rest
          \<and> set pre \<subseteq> {MakeTestDir, CreateAnchor}
          \<and> fsLog w' = fsLog w
              @ WriteLicense (textModeWrite w (toUtf8
                  (spec_blob qt (spec_newRecord qt emailStr hw u (currentDateTime w)))))
              # pre
              @ [WriteAnchor (textModeWrite w (toUtf8 (newAnchorContent (anchorText w) u)))]
          \<and> licenseFile w' = Some (stored (licenseWriteFault w)
                (textModeWrite w (toUtf8
                  (spec_blob qt (spec_newRecord qt emailStr hw u (currentDateTime w))))))
          \<and> anchorFile w' = Some (stored (anchorWriteFault w)
                (textModeWrite w (toUtf8 (newAnchorContent (anchorText w) u))))))
    \<and> (\<not> ((\<exists>hw u rest. spec_resolveHardwareId w = Some hw \<and> uuidSource w = u # rest \<and> u \<noteq> []
            \<and> trimmed emailStr \<noteq> []
            \<and> spec_blob qt (spec_newRecord qt emailStr hw u (currentDateTime w)) \<noteq> [])
           \<and> licenseWritable w)
        \<longrightarrow> fsLog w' = fsLog w \<and> licenseFile w' = licenseFile w
          \<and> anchorFile w' = anchorFile w \<and> testDirExists w' = testDirExists w)
    \<and> (\<not> ok \<and> licenseWritable w
        \<longrightarrow> (\<forall>hw u rest. spec_resolveHardwareId w = Some hw \<and> uuidSource w = u # rest \<and> u \<noteq> []
              \<and> trimmed emailStr \<noteq> []
              \<and> spec_blob qt (spec_newRecord qt emailStr hw u (currentDateTime w)) \<noteq> []
            \<longrightarrow> (\<exists>pre. set pre \<subseteq> {MakeTestDir, CreateAnchor}
                  \<and> fsLog w' = fsLog w
                      @ WriteLicense (textModeWrite w (toUtf8
                          (spec_blob qt (spec_newRecord qt emailStr hw u (currentDateTime w)))))
                      # pre
                  \<and> licenseFile w' = Some (stored (licenseWriteFault w)
                        (textModeWrite w (toUtf8
                          (spec_blob qt
                            (spec_newRecord qt emailStr hw u (currentDateTime w)))))))))"
  using assms by (rule activate_steps)

text \<open>
  Three runs on the sample machine: as it is, the activation succeeds and both files hold
  what was written; with a blob file that cannot be opened for writing it fails and leaves
  the anchor file and the log alone; with an anchor file that cannot be opened for writing
  it fails after the blob was written.
\<close>

theorem activate_result_witness:
  "fst (activateNewLicense sampleQt sampleWorld (QStringLiteral ''a@example.com''))
  \<and> licenseFile (snd (activateNewLicense sampleQt sampleWorld (QStringLiteral ''a@example.com'')))
    = Some (toUtf8 (spec_blob sampleQt
        (spec_newRecord sampleQt (QStringLiteral ''a@example.com'') sampleMac sampleUuid 1500)))
  \<and> anchorFile (snd (activateNewLicense sampleQt sampleWorld (QStringLiteral ''a@example.com'')))
    = Some (toUtf8 (newAnchorContent (anchorText sampleWorld) sampleUuid))
  \<and> \<not> licenseWritable (sampleWorld\<lparr>licenseWritable := False\<rparr>)
  \<and> \<not> fst (activateNewLicense sampleQt (sampleWorld\<lparr>licenseWritable := False\<rparr>)
        (QStringLiteral ''a@example.com''))
  \<and> fsLog (snd (activateNewLicense sampleQt (sampleWorld\<lparr>licenseWritable := False\<rparr>)
        (QStringLiteral ''a@example.com''))) = []
  \<and> anchorFile (snd (activateNewLicense sampleQt (sampleWorld\<lparr>licenseWritable := False\<rparr>)
        (QStringLiteral ''a@example.com'')))
    = anchorFile sampleWorld
  \<and> licenseWritable (sampleWorld\<lparr>anchorWritable := False\<rparr>)
  \<and> \<not> fst (activateNewLicense sampleQt (sampleWorld\<lparr>anchorWritable := False\<rparr>)
        (QStringLiteral ''a@example.com''))
  \<and> fsLog (snd (activateNewLicense sampleQt (sampleWorld\<lparr>anchorWritable := False\<rparr>)
        (QStringLiteral ''a@example.com'')))
    = [WriteLicense (toUtf8 (spec_blob sampleQt
        (spec_newRecord sampleQt (QStringLiteral ''a@example.com'') sampleMac sampleUuid 1500)))]"
proof -
  define e where "e = QStringLiteral ''a@example.com''"
  define v where "v = sampleWorld\<lparr>licenseWritable := False\<rparr>"
  define u where "u = sampleWorld\<lparr>anchorWritable := False\<rparr>"
  define r where "r = activateNewLicense sampleQt sampleWorld e"
  define rv where "rv = activateNewLicense sampleQt v e"
  define ru where "ru = activateNewLicense sampleQt u e"
  note s = activate_result[where qt = sampleQt and w = sampleWorld and emailStr = e,
      OF prod.collapse[symmetric], folded r_def]
  note sv = activate_result[where qt = sampleQt and w = v and emailStr = e,
      OF prod.collapse[symmetric], folded rv_def]
  note su = activate_result[where qt = sampleQt and w = u and emailStr = e,
      OF prod.collapse[symmetric], folded ru_def]
  have hw: "spec_resolveHardwareId sampleWorld = Some sampleMac"
    "spec_resolveHardwareId u = Some sampleMac"
    using sample_resolve by (simp_all add: u_def spec_resolveHardwareId_def)
  have f: "uuidSource sampleWorld = [sampleUuid]" "licenseWritable sampleWorld"
    "anchorFile sampleWorld \<noteq> None" "anchorReadable sampleWorld" "anchorWritable sampleWorld"
    "fsLog sampleWorld = []" "anchorWriteFault sampleWorld = None"
    "licenseWriteFault sampleWorld = None" "\<not> crlfLineEnds sampleWorld"
    "currentDateTime sampleWorld = 1500"
    by (simp_all add: sampleWorld_def)
  have fv: "\<not> licenseWritable v" "fsLog v = []" "anchorFile v = anchorFile sampleWorld"
    by (simp_all add: v_def sampleWorld_def)
  have fu: "\<not> anchorWritable u" "fsLog u = []" "uuidSource u = [sampleUuid]"
    "licenseWritable u" "licenseWriteFault u = None" "\<not> crlfLineEnds u"
    "currentDateTime u = 1500"
    by (simp_all add: u_def sampleWorld_def)
  have em: "trimmed e \<noteq> []"
    by (simp add: e_def trimmed_def isSpace_def QStringLiteral_def)
  have js: "toJsonString sampleQt x = [0x4A]" for x
    by (simp add: toJsonString_def sampleQt_def sampleLibrary_def fromUtf8_def fromUtf8_step_def)
  have key: "spec_deriveKey m \<noteq> []" for m
    by (simp add: spec_deriveKey_def QStringLiteral_def)
  have blob: "spec_blob sampleQt x \<noteq> []" for x
    by (simp add: spec_blob_def xorEncrypt_empty_iff js key)
  have ok: "fst r"
    using s[THEN conjunct1] hw(1) f em blob sampleUuid_hexdash(2) by simp
  have files: "licenseFile (snd r) = Some (toUtf8 (spec_blob sampleQt
        (spec_newRecord sampleQt e sampleMac sampleUuid 1500)))
    \<and> anchorFile (snd r) = Some (toUtf8 (newAnchorContent (anchorText sampleWorld) sampleUuid))"
    using s[THEN conjunct2, THEN conjunct1] ok hw(1) f
    by (auto simp: stored_def textModeWrite_def)
  have novel: "\<not> fst rv"
    using sv[THEN conjunct1] fv(1) by blast
  have bad: "fsLog (snd rv) = [] \<and> anchorFile (snd rv) = anchorFile sampleWorld"
    using sv[THEN conjunct2, THEN conjunct2, THEN conjunct1] fv by simp
  have nou: "\<not> fst ru"
    using su[THEN conjunct1] fu(1) by blast
  from su[THEN conjunct2, THEN conjunct2, THEN conjunct2, rule_format, of sampleMac sampleUuid "[]"]
  obtain pre where pre: "set pre \<subseteq> {MakeTestDir, CreateAnchor}"
    and lg: "fsLog (snd ru) = WriteLicense (toUtf8 (spec_blob sampleQt
        (spec_newRecord sampleQt e sampleMac sampleUuid 1500))) # pre"
    using nou fu hw(2) em blob sampleUuid_hexdash(2) by (auto simp: textModeWrite_def)
  have "pre = []"
  proof -
    have "anchorFile u \<noteq> None"
      by (simp add: u_def sampleWorld_def)
    then have c: "createAnchorIfMissing (x\<lparr>anchorFile := anchorFile u\<rparr>)
        = (True, x\<lparr>anchorFile := anchorFile u\<rparr>)" for x
      by (simp add: createAnchorIfMissing_def)
    have "length (fsLog (snd ru)) = 1"
      using hw(2) resolve_firstMac[of u] sampleMac_facts(1) sampleUuid_hexdash(2) em
        blob[of "spec_newRecord sampleQt e sampleMac sampleUuid 1500"] fu
      by (simp add: ru_def activateNewLicense_def generateUuid_def Let_def saveLicense_def
          isEmpty_def saveUuidToConfig_def createAnchorIfMissing_def spec_blob_def
          spec_newRecord_def deriveKey_code
          u_def[THEN arg_cong, of anchorFile, unfolded sampleWorld_def, simplified])
    then show ?thesis
      using lg by simp
  qed
  then have logu: "fsLog (snd ru) = [WriteLicense (toUtf8 (spec_blob sampleQt
        (spec_newRecord sampleQt e sampleMac sampleUuid 1500)))]"
    using lg by simp
  show ?thesis
    using ok files fv(1) novel bad fu(4) nou logu
    unfolding r_def rv_def ru_def v_def u_def e_def by blast
qed

end
